theory Spec2Isabelle
  imports Complex_Main "HOL-Library.AList"
begin

section \<open>Values, text and tables\<close>

text \<open>
  A cell of a table is text, a number or a missing value (pandas' NaN). Numbers are
  Python integers, as a row of a frame with a text column holds the cells of an integer
  column; floating-point cells are outside the model. Text is a list of characters, one
  \<open>char\<close> per code point below 256.
\<close>

datatype cell = Text string | Num int | Null

datatype error = KeyError | AttributeError | ValueError

text \<open>
  A DataFrame: its column labels in order and its rows, each row holding one cell per
  column. The row index is the default one (0, 1, 2, ...), as \<^verbatim>\<open>read_csv\<close> and
  \<^verbatim>\<open>read_excel\<close> build it, so a row's label is its position. Column labels are
  meant to be distinct, as the same readers make them.
\<close>

record dataframe =
  columns :: "string list"
  rows :: "cell list list"

type_synonym row_dict = "(string \<times> cell) list"

subsection \<open>Python's \<^verbatim>\<open>str\<close>, \<^verbatim>\<open>strip\<close> and \<^verbatim>\<open>lower\<close>\<close>

definition isspace :: "char \<Rightarrow> bool" where
  "isspace c = (let n = (of_char c :: nat) in
     (9 \<le> n \<and> n \<le> 13) \<or> (28 \<le> n \<and> n \<le> 32) \<or> n = 133 \<or> n = 160)"

definition lower_char :: "char \<Rightarrow> char" where
  "lower_char c = (let n = (of_char c :: nat) in
     if (65 \<le> n \<and> n \<le> 90) \<or> (192 \<le> n \<and> n \<le> 222 \<and> n \<noteq> 215)
     then char_of (n + 32) else c)"

definition strip :: "string \<Rightarrow> string" where
  "strip s = rev (dropWhile isspace (rev (dropWhile isspace s)))"

definition lower :: "string \<Rightarrow> string" where
  "lower s = map lower_char s"

fun digits :: "nat \<Rightarrow> string" where
  "digits n = (if n < 10 then [char_of (48 + n)]
               else digits (n div 10) @ [char_of (48 + n mod 10)])"

declare digits.simps [simp del]

definition str_int :: "int \<Rightarrow> string" where
  "str_int i = (if i < 0 then CHR ''-'' # digits (nat (- i)) else digits (nat i))"

text \<open>\<^verbatim>\<open>str(v)\<close> of a cell; \<^verbatim>\<open>str\<close> of a missing value (NaN) is \<^verbatim>\<open>'nan'\<close>.\<close>

fun to_str :: "cell \<Rightarrow> string" where
  "to_str (Text s) = s"
| "to_str (Num i) = str_int i"
| "to_str Null = ''nan''"

text \<open>
  \<^verbatim>\<open>.astype(str).str.strip().str.lower()\<close> on one cell. A cell that holds a value
  becomes the text of the value, stripped and lower-cased. A missing cell stays missing:
  current pandas carries a missing value through \<^verbatim>\<open>astype(str)\<close> and the \<^verbatim>\<open>.str\<close>
  methods (releases before 3 wrote the text \<^verbatim>\<open>'nan'\<close> instead; the repository pins
  no release). The scores are the same either way, since the matching loop takes
  \<^verbatim>\<open>str\<close> of the cell, which is \<^verbatim>\<open>'nan'\<close> for both.
\<close>

fun normalize_cell :: "cell \<Rightarrow> cell" where
  "normalize_cell (Text s) = Text (lower (strip s))"
| "normalize_cell (Num i) = Text (lower (strip (str_int i)))"
| "normalize_cell Null = Null"

section \<open>The similarity scorers of the fuzzy-matching library\<close>

text \<open>
  \<^verbatim>\<open>fuzz.ratio\<close>, \<^verbatim>\<open>fuzz.token_set_ratio\<close> and \<^verbatim>\<open>process.extractOne\<close> belong to
  the library \<^verbatim>\<open>rapidfuzz\<close>, not to the repository. The matcher and the column
  resolver below take the two scorers as parameters; a score is a rational number (every
  float the library returns is one, and Python compares a float with an integer threshold
  exactly). For concrete scenarios the scorers are modelled here, in exact arithmetic.
\<close>

type_synonym scorer = "string \<Rightarrow> string \<Rightarrow> rat"

fun lcs_row :: "'a \<Rightarrow> 'a list \<Rightarrow> nat list \<Rightarrow> nat \<Rightarrow> nat \<Rightarrow> nat list" where
  "lcs_row x (y # ys) (p # prev) diag left =
     (let v = (if x = y then diag + 1 else max p left) in v # lcs_row x ys prev p v)"
| "lcs_row x ys prev diag left = []"

text \<open>Length of a longest common subsequence, row by row.\<close>

definition lcs :: "'a list \<Rightarrow> 'a list \<Rightarrow> nat" where
  "lcs xs ys = last (0 # foldl (\<lambda>row x. lcs_row x ys row 0 0) (replicate (length ys) 0) xs)"

text \<open>The Indel distance: insertions and deletions needed to turn one string into the other.\<close>

definition indel_distance :: "string \<Rightarrow> string \<Rightarrow> nat" where
  "indel_distance s1 s2 = length s1 + length s2 - 2 * lcs s1 s2"

text \<open>\<^verbatim>\<open>100 - 100 * dist / lensum\<close>, and 100 when both lengths are 0.\<close>

definition norm_distance :: "nat \<Rightarrow> nat \<Rightarrow> rat" where
  "norm_distance d lensum =
     (if lensum = 0 then 100 else 100 - 100 * of_nat d / of_nat lensum)"

text \<open>
  Modelled from the spec: \<^verbatim>\<open>fuzz.ratio\<close> is not in the repository. The spec calls it a
  "character-level similarity ratio (order-sensitive, edit-distance-based, 0-100)"; the
  library defines it as the normalized Indel similarity times 100, with no preprocessing
  of the two strings.
\<close>

definition fuzz_ratio :: scorer where
  "fuzz_ratio s1 s2 = norm_distance (indel_distance s1 s2) (length s1 + length s2)"

text \<open>\<^verbatim>\<open>s.split()\<close>: the maximal runs of non-whitespace characters.\<close>

fun split_from :: "string \<Rightarrow> string \<Rightarrow> string list" where
  "split_from cur [] = (if cur = [] then [] else [cur])"
| "split_from cur (c # cs) =
     (if isspace c then (if cur = [] then split_from [] cs else cur # split_from [] cs)
      else split_from (cur @ [c]) cs)"

definition split :: "string \<Rightarrow> string list" where
  "split s = split_from [] s"

fun str_le :: "string \<Rightarrow> string \<Rightarrow> bool" where
  "str_le [] t = True"
| "str_le (c # s) [] = False"
| "str_le (c # s) (d # t) =
     ((of_char c :: nat) < of_char d \<or> (c = d \<and> str_le s t))"

fun insort_str :: "string \<Rightarrow> string list \<Rightarrow> string list" where
  "insort_str x [] = [x]"
| "insort_str x (y # ys) = (if str_le x y then x # y # ys else y # insort_str x ys)"

definition sorted_strs :: "string list \<Rightarrow> string list" where
  "sorted_strs xs = foldr insort_str xs []"

fun join :: "string \<Rightarrow> string list \<Rightarrow> string" where
  "join sep [] = []"
| "join sep [x] = x"
| "join sep (x # y # ys) = x @ sep @ join sep (y # ys)"

text \<open>
  Modelled from the spec: \<^verbatim>\<open>fuzz.token_set_ratio\<close> is not in the repository. The spec
  calls it a "token-set similarity ratio (order- and duplicate-insensitive: tokenizes
  each string, removes duplicate tokens, compares the resulting sets' overlap)"; the
  library computes it from the common tokens and the two sets of remaining tokens as
  written here, with no preprocessing of the two strings.
\<close>

definition fuzz_token_set_ratio :: scorer where
  "fuzz_token_set_ratio s1 s2 =
     (if s1 = [] \<or> s2 = [] then 0
      else let tokens_a = remdups (split s1); tokens_b = remdups (split s2) in
        if tokens_a = [] \<or> tokens_b = [] then 0
        else let intersect = filter (\<lambda>t. t \<in> set tokens_b) tokens_a;
                 diff_ab = filter (\<lambda>t. t \<notin> set tokens_b) tokens_a;
                 diff_ba = filter (\<lambda>t. t \<notin> set tokens_a) tokens_b in
          if intersect \<noteq> [] \<and> (diff_ab = [] \<or> diff_ba = []) then 100
          else let diff_ab_joined = join '' '' (sorted_strs diff_ab);
                   diff_ba_joined = join '' '' (sorted_strs diff_ba);
                   ab_len = length diff_ab_joined;
                   ba_len = length diff_ba_joined;
                   sect_len = length (join '' '' intersect);
                   sep = (if sect_len \<noteq> 0 then 1 else 0);
                   sect_ab_len = sect_len + sep + ab_len;
                   sect_ba_len = sect_len + sep + ba_len;
                   result = norm_distance (indel_distance diff_ab_joined diff_ba_joined)
                              (sect_ab_len + sect_ba_len) in
            if sect_len = 0 then result
            else max result
                   (max (norm_distance (sep + ab_len) (sect_len + sect_ab_len))
                        (norm_distance (sep + ba_len) (sect_len + sect_ba_len))))"

section \<open>The matcher: \<^verbatim>\<open>match_and_merge_two_datasets\<close>\<close>

text \<open>
  DataFrames are objects: the caller's two tables and the two working copies live in a
  store, a list of frames addressed by position. \<^verbatim>\<open>df.copy()\<close> allocates a new frame;
  \<^verbatim>\<open>rename(..., inplace=True)\<close> and the column assignment write to the frame they
  are called on.
\<close>

type_synonym store = "dataframe list"

definition copy :: "store \<Rightarrow> nat \<Rightarrow> store \<times> nat" where
  "copy s df = (s @ [s ! df], length s)"

text \<open>\<^verbatim>\<open>rename(columns={old: new})\<close>: every column labelled \<open>old\<close> is relabelled; an absent \<open>old\<close> is ignored.\<close>

definition rename :: "dataframe \<Rightarrow> string \<Rightarrow> string \<Rightarrow> dataframe" where
  "rename df old new = df\<lparr>columns := map (\<lambda>c. if c = old then new else c) (columns df)\<rparr>"

fun index_of :: "'a list \<Rightarrow> 'a \<Rightarrow> nat option" where
  "index_of [] x = None"
| "index_of (y # ys) x = (if y = x then Some 0 else map_option Suc (index_of ys x))"

text \<open>
  \<^verbatim>\<open>df[col] = df[col].astype(str).str.strip().str.lower()\<close>. A missing label raises
  KeyError. A label carried by several columns selects a DataFrame, which has no
  \<^verbatim>\<open>.str\<close>: AttributeError.
\<close>

definition normalize_column :: "dataframe \<Rightarrow> string \<Rightarrow> error + dataframe" where
  "normalize_column df col =
     (case index_of (columns df) col of
        None \<Rightarrow> Inl KeyError
      | Some i \<Rightarrow>
          if 1 < count_list (columns df) col then Inl AttributeError
          else Inr (df\<lparr>rows := map (\<lambda>r. r[i := normalize_cell (r ! i)]) (rows df)\<rparr>))"

text \<open>Lines 28-31 and 33-36: the loop over the items of a column mapping, on the working copy.\<close>

fun standardize :: "store \<Rightarrow> nat \<Rightarrow> (string \<times> string) list \<Rightarrow> (error + unit) \<times> store" where
  "standardize s df_copy [] = (Inr (), s)"
| "standardize s df_copy ((req_col, actual_col) # items) =
     (if actual_col \<noteq> req_col then
        (let s1 = s[df_copy := rename (s ! df_copy) actual_col req_col] in
         case normalize_column (s1 ! df_copy) req_col of
           Inl e \<Rightarrow> (Inl e, s1)
         | Inr df \<Rightarrow> standardize (s1[df_copy := df]) df_copy items)
      else standardize s df_copy items)"

text \<open>\<^verbatim>\<open>row[col]\<close> on a row of a frame, and \<^verbatim>\<open>df.iloc[i].to_dict()\<close>.\<close>

definition getitem :: "string list \<Rightarrow> cell list \<Rightarrow> string \<Rightarrow> error + cell" where
  "getitem cols row col =
     (case index_of cols col of None \<Rightarrow> Inl KeyError | Some i \<Rightarrow> Inr (row ! i))"

definition to_dict :: "dataframe \<Rightarrow> nat \<Rightarrow> row_dict" where
  "to_dict df i = zip (columns df) (rows df ! i)"

definition bind_err :: "error + 'a \<Rightarrow> ('a \<Rightarrow> error + 'b) \<Rightarrow> error + 'b" where
  "bind_err r f = (case r of Inl e \<Rightarrow> Inl e | Inr v \<Rightarrow> f v)"

text \<open>Lines 56-58: the three scores of a pair of rows of the working copies.\<close>

definition key_scores ::
  "scorer \<Rightarrow> scorer \<Rightarrow> string list \<Rightarrow> cell list \<Rightarrow> string list \<Rightarrow> cell list \<Rightarrow> error + (rat \<times> rat \<times> rat)" where
  "key_scores ratio token_set_ratio cols1 row1 cols2 row2 =
     bind_err (getitem cols1 row1 ''region'') (\<lambda>r1.
     bind_err (getitem cols2 row2 ''region'') (\<lambda>r2.
     bind_err (getitem cols1 row1 ''zone'') (\<lambda>z1.
     bind_err (getitem cols2 row2 ''zone'') (\<lambda>z2.
     bind_err (getitem cols1 row1 ''woreda'') (\<lambda>w1.
     bind_err (getitem cols2 row2 ''woreda'') (\<lambda>w2.
       Inr (ratio (to_str r1) (to_str r2),
            ratio (to_str z1) (to_str z2),
            token_set_ratio (to_str w1) (to_str w2))))))))"

text \<open>Lines 68-69: the non-key columns of the original second table are written into the combined row.\<close>

fun add_cols :: "dataframe \<Rightarrow> nat \<Rightarrow> string list \<Rightarrow> row_dict \<Rightarrow> error + row_dict" where
  "add_cols df2 index2 [] combined_row = Inr combined_row"
| "add_cols df2 index2 (col # cols) combined_row =
     (case getitem (columns df2) (rows df2 ! index2) col of
        Inl e \<Rightarrow> Inl e
      | Inr v \<Rightarrow> add_cols df2 index2 cols (AList.update col v combined_row))"

record loop_state =
  matched_rows :: "row_dict list"
  unmatched_df1_rows :: "row_dict list"
  matched_indices_df2 :: "nat set"

text \<open>
  What the loops read and never write: the scorers, the thresholds, the two original
  frames, the two working copies and the list of non-key columns.
\<close>

record env =
  ratio :: scorer
  token_set_ratio :: scorer
  region_threshold :: int
  zone_threshold :: int
  woreda_threshold :: int
  df1 :: dataframe
  df2 :: dataframe
  df1_copy :: dataframe
  df2_copy :: dataframe
  df2_non_key_cols :: "string list"

text \<open>
  Lines 52-74: the scan of the second working copy for one row of the first. It returns
  the state and \<^verbatim>\<open>found_match\<close>.
\<close>

fun scan_df2 :: "env \<Rightarrow> nat \<Rightarrow> cell list \<Rightarrow> (nat \<times> cell list) list \<Rightarrow> loop_state \<Rightarrow> error + (loop_state \<times> bool)" where
  "scan_df2 E index1 row1 [] st = Inr (st, False)"
| "scan_df2 E index1 row1 ((index2, row2) # rest) st =
     (if index2 \<in> matched_indices_df2 st then scan_df2 E index1 row1 rest st
      else
        case key_scores (ratio E) (token_set_ratio E)
               (columns (df1_copy E)) row1 (columns (df2_copy E)) row2 of
          Inl e \<Rightarrow> Inl e
        | Inr (region_score, zone_score, woreda_score) \<Rightarrow>
            if of_int (region_threshold E) \<le> region_score \<and>
               of_int (zone_threshold E) \<le> zone_score \<and>
               of_int (woreda_threshold E) \<le> woreda_score
            then
              (case add_cols (df2 E) index2 (df2_non_key_cols E) (to_dict (df1 E) index1) of
                 Inl e \<Rightarrow> Inl e
               | Inr combined_row \<Rightarrow>
                   Inr (st\<lparr>matched_rows := matched_rows st @ [combined_row],
                           matched_indices_df2 := insert index2 (matched_indices_df2 st)\<rparr>, True))
            else scan_df2 E index1 row1 rest st)"

text \<open>Lines 48-77: the loop over the rows of the first working copy.\<close>

fun match_rows :: "env \<Rightarrow> (nat \<times> cell list) list \<Rightarrow> loop_state \<Rightarrow> error + loop_state" where
  "match_rows E [] st = Inr st"
| "match_rows E ((index1, row1) # rest) st =
     (case scan_df2 E index1 row1 (enumerate 0 (rows (df2_copy E))) st of
        Inl e \<Rightarrow> Inl e
      | Inr (st', found_match) \<Rightarrow>
          if \<not> found_match
          then match_rows E rest
                 (st'\<lparr>unmatched_df1_rows := unmatched_df1_rows st' @ [to_dict (df1 E) index1]\<rparr>)
          else match_rows E rest st')"

text \<open>
  The function. It takes the two scorers, the store and the addresses \<open>a1\<close> and \<open>a2\<close> of
  \<^verbatim>\<open>df1\<close> and \<^verbatim>\<open>df2\<close>, the two mappings (dicts, as lists of items) and the three
  thresholds, and returns the store with its result: an error, or the rows of the merged
  table, the rows of the table of unmatched rows of the first table (both as the lists of
  dicts the code hands to \<^verbatim>\<open>pd.DataFrame\<close>) and the frame of unmatched rows of the second
  table. The variable \<^verbatim>\<open>key_cols\<close> of line 39 is never read.
\<close>

definition match_and_merge_two_datasets ::
  "scorer \<Rightarrow> scorer \<Rightarrow> store \<Rightarrow> nat \<Rightarrow> nat \<Rightarrow> (string \<times> string) list \<Rightarrow> (string \<times> string) list \<Rightarrow>
   int \<Rightarrow> int \<Rightarrow> int \<Rightarrow> (error + (row_dict list \<times> row_dict list \<times> dataframe)) \<times> store" where
  "match_and_merge_two_datasets rat tsr s a1 a2 col_mapping1 col_mapping2 rt zt wt =
     (let (s1, c1) = copy s a1;
          (s2, c2) = copy s1 a2 in
      case standardize s2 c1 col_mapping1 of
        (Inl e, s3) \<Rightarrow> (Inl e, s3)
      | (Inr _, s3) \<Rightarrow>
      (case standardize s3 c2 col_mapping2 of
        (Inl e, s4) \<Rightarrow> (Inl e, s4)
      | (Inr _, s4) \<Rightarrow>
        (let E = \<lparr>ratio = rat, token_set_ratio = tsr,
                  region_threshold = rt, zone_threshold = zt, woreda_threshold = wt,
                  df1 = s4 ! a1, df2 = s4 ! a2, df1_copy = s4 ! c1, df2_copy = s4 ! c2,
                  df2_non_key_cols =
                    filter (\<lambda>col. col \<notin> snd ` set col_mapping2) (columns (s4 ! a2))\<rparr> in
         case match_rows E (enumerate 0 (rows (df1_copy E)))
                \<lparr>matched_rows = [], unmatched_df1_rows = [], matched_indices_df2 = {}\<rparr> of
           Inl e \<Rightarrow> (Inl e, s4)
         | Inr st \<Rightarrow>
             (let unmatched_indices_df2 =
                    filter (\<lambda>i. i \<notin> matched_indices_df2 st) [0..<length (rows (df2 E))] in
              (Inr (matched_rows st, unmatched_df1_rows st,
                    \<lparr>columns = columns (df2 E),
                     rows = map (\<lambda>i. rows (df2 E) ! i) unmatched_indices_df2\<rparr>), s4)))))"

subsection \<open>The working copy and the loop environment, as functions of the two tables\<close>

text \<open>
  What a working copy holds after the normalization loop, and the environment of the
  matching loops, written from the contents of the two tables alone. The lemma
  \<open>match_and_merge_fst\<close> below shows that the function computes with exactly these.
\<close>

definition working_copy :: "dataframe \<Rightarrow> (string \<times> string) list \<Rightarrow> dataframe" where
  "working_copy df m = snd (standardize [df] 0 m) ! 0"

definition matcher_env ::
  "scorer \<Rightarrow> scorer \<Rightarrow> dataframe \<Rightarrow> dataframe \<Rightarrow> (string \<times> string) list \<Rightarrow> (string \<times> string) list \<Rightarrow>
   int \<Rightarrow> int \<Rightarrow> int \<Rightarrow> env" where
  "matcher_env rat tsr A B m1 m2 rt zt wt =
     \<lparr>ratio = rat, token_set_ratio = tsr,
      region_threshold = rt, zone_threshold = zt, woreda_threshold = wt,
      df1 = A, df2 = B, df1_copy = working_copy A m1, df2_copy = working_copy B m2,
      df2_non_key_cols = filter (\<lambda>col. col \<notin> snd ` set m2) (columns B)\<rparr>"

definition init_state :: loop_state where
  "init_state = \<lparr>matched_rows = [], unmatched_df1_rows = [], matched_indices_df2 = {}\<rparr>"

subsection \<open>Well-formed tables and complete mappings\<close>

text \<open>
  A frame as pandas holds it, with distinct column labels: every row has one cell per
  column. A column mapping the normalization loop runs through without an exception, for
  a table with columns \<open>cols\<close>: a dict (no key twice) that sends different keys to
  different columns of the table, where the canonical name of a key whose column has
  another name is not itself a column of the table.
\<close>

definition wf_frame :: "dataframe \<Rightarrow> bool" where
  "wf_frame df \<longleftrightarrow>
     distinct (columns df) \<and> (\<forall>row \<in> set (rows df). length row = length (columns df))"

definition mapping_ok :: "string list \<Rightarrow> (string \<times> string) list \<Rightarrow> bool" where
  "mapping_ok cols m \<longleftrightarrow>
     distinct (map fst m) \<and> distinct (map snd m) \<and> set (map snd m) \<subseteq> set cols \<and>
     (\<forall>(req_col, actual_col) \<in> set m. req_col \<noteq> actual_col \<longrightarrow> req_col \<notin> set cols)"

subsection \<open>The matched pairs behind a loop state\<close>

text \<open>
  The code keeps the merged rows, the unmatched rows of the first table and the set of
  claimed row indices of the second, but not which row was paired with which. A state
  after \<open>k\<close> rows of the first table is described by a list of pairs \<open>(i, j)\<close> and a
  list \<open>un\<close> of unmatched indices when: the merged rows are the combined rows of the
  pairs, in order; the unmatched rows are the original rows at \<open>un\<close>; the claimed set is
  the set of second components; every index below \<open>k\<close> is a first component or in
  \<open>un\<close>, exactly once; no second component occurs twice, and each is a row index of
  the second table.
\<close>

definition pairing_inv :: "env \<Rightarrow> nat \<Rightarrow> loop_state \<Rightarrow> (nat \<times> nat) list \<Rightarrow> nat list \<Rightarrow> bool" where
  "pairing_inv E k st pairs un \<longleftrightarrow>
     map (\<lambda>(i, j). add_cols (df2 E) j (df2_non_key_cols E) (to_dict (df1 E) i)) pairs
       = map Inr (matched_rows st) \<and>
     unmatched_df1_rows st = map (to_dict (df1 E)) un \<and>
     matched_indices_df2 st = snd ` set pairs \<and>
     distinct (map fst pairs @ un) \<and>
     set (map fst pairs) \<union> set un = {..<k} \<and>
     distinct (map snd pairs) \<and>
     snd ` set pairs \<subseteq> {..<length (rows (df2_copy E))}"

subsection \<open>The tables of the end-to-end scenario\<close>

definition scenario_A :: dataframe where
  "scenario_A = \<lparr>columns = [''region'', ''zone'', ''woreda'', ''val''],
                  rows = [[Text ''Addis Ababa'', Text ''Zone1'', Text ''W1'', Num 10]]\<rparr>"

definition scenario_B :: dataframe where
  "scenario_B = \<lparr>columns = [''region'', ''zone'', ''woreda'', ''note''],
                  rows = [[Text ''addis ababa'', Text ''zone 1'', Text ''w1 '', Text ''ok'']]\<rparr>"

definition identity_mapping :: "(string \<times> string) list" where
  "identity_mapping = [(''region'', ''region''), (''zone'', ''zone''), (''woreda'', ''woreda'')]"

subsection \<open>Two small tables with differently named key columns\<close>

definition example_A :: dataframe where
  "example_A = \<lparr>columns = [''Region'', ''Zone'', ''Woreda'', ''val''],
                 rows = [[Text '' Addis Ababa'', Text ''Zone1'', Text ''W1'', Num 10],
                         [Text ''Oromia'', Text ''Bale'', Text ''Goba'', Num 20]]\<rparr>"

definition example_B :: dataframe where
  "example_B = \<lparr>columns = [''region'', ''ZONE'', ''woreda'', ''val'', ''note''],
                 rows = [[Text ''Tigray'', Text ''Mekelle'', Text ''Adi'', Num 7, Text ''no''],
                         [Text ''addis ababa'', Text ''zone 1'', Text ''w1 '', Num 5, Text ''ok'']]\<rparr>"

definition mapping_A :: "(string \<times> string) list" where
  "mapping_A = [(''region'', ''Region''), (''zone'', ''Zone''), (''woreda'', ''Woreda'')]"

definition mapping_B :: "(string \<times> string) list" where
  "mapping_B = [(''region'', ''region''), (''zone'', ''ZONE''), (''woreda'', ''woreda'')]"

subsection \<open>A table with three candidates for one row, and a pair at the threshold\<close>

definition first_fit_A :: dataframe where
  "first_fit_A = \<lparr>columns = [''region'', ''zone'', ''woreda''],
                   rows = [[Text ''addis ababa'', Text ''bole'', Text ''w1'']]\<rparr>"

definition first_fit_B :: dataframe where
  "first_fit_B = \<lparr>columns = [''region'', ''zone'', ''woreda'', ''note''],
                   rows = [[Text ''oromia'', Text ''bole'', Text ''w1'', Text ''r0''],
                           [Text ''addis abeba'', Text ''bole'', Text ''w1'', Text ''r1''],
                           [Text ''addis ababa'', Text ''bole'', Text ''w1'', Text ''r2'']]\<rparr>"

definition first_fit_env :: env where
  "first_fit_env = matcher_env fuzz_ratio fuzz_token_set_ratio first_fit_A first_fit_B
                     identity_mapping identity_mapping 80 80 80"

definition boundary_A :: dataframe where
  "boundary_A = \<lparr>columns = [''region'', ''zone'', ''woreda''],
                  rows = [[Text ''ab'', Text ''bole'', Text ''w1'']]\<rparr>"

definition boundary_B :: dataframe where
  "boundary_B = \<lparr>columns = [''region'', ''zone'', ''woreda''],
                  rows = [[Text ''ac'', Text ''bole'', Text ''w1'']]\<rparr>"

definition boundary_env :: env where
  "boundary_env = matcher_env fuzz_ratio fuzz_token_set_ratio boundary_A boundary_B
                     identity_mapping identity_mapping 50 100 100"

section \<open>The column resolver: \<^verbatim>\<open>map_columns\<close>\<close>

text \<open>
  Modelled from the spec: \<^verbatim>\<open>process.extractOne\<close> is not in the repository. The spec
  says of it: "select the candidate with the maximum score. Tie-break: first candidate in
  the table's original column order among those sharing the maximum score". The library
  walks the choices in order, keeps a choice whose score is strictly higher than the best
  so far, and returns the choice, its score and its position, or \<^verbatim>\<open>None\<close> when there
  are no choices. (No preprocessing of the strings and no score cutoff, the defaults.)
\<close>

fun extractOne_loop ::
  "scorer \<Rightarrow> string \<Rightarrow> string list \<Rightarrow> nat \<Rightarrow> (string \<times> rat \<times> nat) option \<Rightarrow> (string \<times> rat \<times> nat) option" where
  "extractOne_loop sc query [] i best = best"
| "extractOne_loop sc query (choice # choices) i best =
     (let score = sc query choice in
      extractOne_loop sc query choices (Suc i)
        (case best of
           None \<Rightarrow> Some (choice, score, i)
         | Some (best_choice, best_score, best_i) \<Rightarrow>
             if best_score < score then Some (choice, score, i) else best))"

definition extractOne :: "scorer \<Rightarrow> string \<Rightarrow> string list \<Rightarrow> (string \<times> rat \<times> nat) option" where
  "extractOne sc query choices = extractOne_loop sc query choices 0 None"

text \<open>
  Lines 100-106 of \<^verbatim>\<open>app.py\<close>: the loop over the required keys, with the mapping (a
  dict, in insertion order) and the list of missing keys. \<^verbatim>\<open>list.index\<close> raises
  ValueError for an absent element.
\<close>

fun map_columns_loop ::
  "scorer \<Rightarrow> string list \<Rightarrow> string list \<Rightarrow> string list \<Rightarrow>
   (string \<times> string) list \<times> string list \<Rightarrow> error + ((string \<times> string) list \<times> string list)" where
  "map_columns_loop sc df_columns normalized_cols [] acc = Inr acc"
| "map_columns_loop sc df_columns normalized_cols (req_col # rest) (col_mapping, missing_cols) =
     (case extractOne sc req_col normalized_cols of
        None \<Rightarrow> map_columns_loop sc df_columns normalized_cols rest
                 (col_mapping, missing_cols @ [req_col])
      | Some (choice, score, i) \<Rightarrow>
          if 85 \<le> score then
            (case index_of normalized_cols choice of
               None \<Rightarrow> Inl ValueError
             | Some n \<Rightarrow>
                 map_columns_loop sc df_columns normalized_cols rest
                   (AList.update req_col (df_columns ! n) col_mapping, missing_cols))
          else map_columns_loop sc df_columns normalized_cols rest
                 (col_mapping, missing_cols @ [req_col]))"

text \<open>Lines 96-107: \<^verbatim>\<open>map_columns(df, required_cols)\<close>, with the scorer \<^verbatim>\<open>fuzz.ratio\<close> as a parameter.\<close>

definition map_columns ::
  "scorer \<Rightarrow> dataframe \<Rightarrow> string list \<Rightarrow> error + ((string \<times> string) list \<times> string list)" where
  "map_columns sc df required_cols =
     (let normalized_cols = map (\<lambda>col. lower (strip col)) (columns df) in
      map_columns_loop sc (columns df) normalized_cols required_cols ([], []))"

text \<open>
  Position \<open>k\<close> is the first position of \<open>xs\<close> whose score against \<open>query\<close> is
  maximal.
\<close>

definition is_first_max :: "scorer \<Rightarrow> string \<Rightarrow> string list \<Rightarrow> nat \<Rightarrow> bool" where
  "is_first_max sc query xs k \<longleftrightarrow>
     k < length xs \<and> (\<forall>j < length xs. sc query (xs ! j) \<le> sc query (xs ! k)) \<and>
     (\<forall>j < k. sc query (xs ! j) < sc query (xs ! k))"

definition resolver_table :: dataframe where
  "resolver_table = \<lparr>columns = [''area'', '' Region '', ''ZONE'', ''kebele''], rows = []\<rparr>"

section \<open>Lemmas about the model\<close>

lemma norm_distance_range: "d \<le> lensum \<Longrightarrow> 0 \<le> norm_distance d lensum \<and> norm_distance d lensum \<le> 100"
  by (simp add: norm_distance_def divide_le_eq)

subsection \<open>The store: what the normalization loops write\<close>

lemma standardize_length: "length (snd (standardize s c m)) = length s"
  by (induction s c m rule: standardize.induct) (auto simp: Let_def split: sum.splits)

lemma standardize_frame: "a \<noteq> c \<Longrightarrow> snd (standardize s c m) ! a = s ! a"
  by (induction s c m rule: standardize.induct) (auto simp: Let_def split: sum.splits)

lemma standardize_local:
  "c < length s \<Longrightarrow> c' < length t \<Longrightarrow> s ! c = t ! c' \<Longrightarrow>
   fst (standardize s c m) = fst (standardize t c' m) \<and>
   snd (standardize s c m) ! c = snd (standardize t c' m) ! c'"
proof (induction m arbitrary: s t)
  case Nil
  then show ?case by simp
next
  case (Cons item items)
  obtain req_col actual_col where item: "item = (req_col, actual_col)" by (cases item)
  show ?case
  proof (cases "actual_col = req_col")
    case True
    with Cons item show ?thesis by simp
  next
    case False
    let ?df = "rename (s ! c) actual_col req_col"
    show ?thesis
    proof (cases "normalize_column ?df req_col")
      case (Inl e)
      with False item Cons.prems show ?thesis by (simp add: Let_def)
    next
      case (Inr df)
      have "fst (standardize (s[c := ?df, c := df]) c items) = fst (standardize (t[c' := ?df, c' := df]) c' items) \<and>
            snd (standardize (s[c := ?df, c := df]) c items) ! c = snd (standardize (t[c' := ?df, c' := df]) c' items) ! c'"
        by (rule Cons.IH) (use Cons.prems in simp_all)
      with Inr False item Cons.prems show ?thesis by (simp add: Let_def)
    qed
  qed
qed

lemma rows_rename: "rows (rename df a b) = rows df"
  by (simp add: rename_def)

lemma normalize_column_rows_length:
  "normalize_column df col = Inr df' \<Longrightarrow> length (rows df') = length (rows df) \<and> columns df' = columns df"
  by (auto simp: normalize_column_def split: option.splits if_splits)

lemma standardize_rows_length:
  "c < length s \<Longrightarrow> length (rows (snd (standardize s c m) ! c)) = length (rows (s ! c))"
proof (induction s c m rule: standardize.induct)
  case (1 s df_copy)
  then show ?case by simp
next
  case (2 s df_copy req_col actual_col items)
  then show ?case
    by (auto simp: Let_def rows_rename split: sum.splits dest!: normalize_column_rows_length)
qed

lemma match_and_merge_frame:
  "a < length s \<Longrightarrow> snd (match_and_merge_two_datasets rat tsr s a1 a2 m1 m2 rt zt wt) ! a = s ! a"
proof -
  assume a: "a < length s"
  let ?s2 = "(s @ [s ! a1]) @ [(s @ [s ! a1]) ! a2]"
  let ?s3 = "snd (standardize ?s2 (length s) m1)"
  let ?s4 = "snd (standardize ?s3 (Suc (length s)) m2)"
  have s3: "?s3 ! a = s ! a" using a by (simp add: standardize_frame nth_append)
  have s4: "?s4 ! a = s ! a" using a s3 by (simp add: standardize_frame)
  have "snd (match_and_merge_two_datasets rat tsr s a1 a2 m1 m2 rt zt wt) = ?s3 \<or>
        snd (match_and_merge_two_datasets rat tsr s a1 a2 m1 m2 rt zt wt) = ?s4"
    by (auto simp: match_and_merge_two_datasets_def copy_def Let_def split: prod.splits sum.splits)
  with s3 s4 show ?thesis by auto
qed

subsection \<open>Lookups, the combined row and one scan of the second table\<close>

lemma index_of_None: "index_of xs x = None \<longleftrightarrow> x \<notin> set xs"
  by (induction xs) auto

lemma index_of_Some: "index_of xs x = Some i \<Longrightarrow> i < length xs \<and> xs ! i = x"
  by (induction xs arbitrary: i) (auto split: if_splits)

lemma getitem_Inr: "col \<in> set cols \<Longrightarrow> \<exists>v. getitem cols row col = Inr v"
  by (cases "index_of cols col") (auto simp: getitem_def index_of_None)

lemma getitem_KeyError: "col \<notin> set cols \<Longrightarrow> getitem cols row col = Inl KeyError"
  using index_of_None [of cols col] by (simp add: getitem_def)

lemma add_cols_Inr:
  "set cols \<subseteq> set (columns B) \<Longrightarrow> \<exists>row. add_cols B j cols c = Inr row"
proof (induction cols arbitrary: c)
  case Nil
  then show ?case by simp
next
  case (Cons col cols)
  from Cons.prems have "col \<in> set (columns B)" by simp
  then obtain v where "getitem (columns B) (rows B ! j) col = Inr v"
    using getitem_Inr [of col "columns B" "rows B ! j"] by blast
  with Cons show ?case by simp
qed

lemma add_cols_map_of:
  "add_cols B j cols c = Inr row \<Longrightarrow>
   (col \<in> set cols \<longrightarrow> (\<exists>v. map_of row col = Some v \<and> getitem (columns B) (rows B ! j) col = Inr v)) \<and>
   (col \<notin> set cols \<longrightarrow> map_of row col = map_of c col)"
proof (induction cols arbitrary: c)
  case Nil
  then show ?case by simp
next
  case (Cons col0 cols)
  from Cons.prems obtain v where v: "getitem (columns B) (rows B ! j) col0 = Inr v"
    and rest: "add_cols B j cols (AList.update col0 v c) = Inr row"
    by (auto split: sum.splits)
  from Cons.IH [OF rest] v show ?case
    by (auto simp: update_conv')
qed

lemma add_cols_keys:
  "add_cols B j cols c = Inr row \<Longrightarrow> fst ` set row = fst ` set c \<union> set cols"
proof (induction cols arbitrary: c)
  case Nil
  then show ?case by simp
next
  case (Cons col0 cols)
  from Cons.prems obtain v where rest: "add_cols B j cols (AList.update col0 v c) = Inr row"
    by (auto split: sum.splits)
  from Cons.IH [OF rest] show ?case
    by (auto simp: dom_update dom_map_of_conv_image_fst [symmetric] update_conv')
qed

lemma scan_df2_result:
  "scan_df2 E i row1 rows2 st = Inr (st', found) \<Longrightarrow>
   (\<not> found \<and> st' = st) \<or>
   (found \<and> (\<exists>j row2 combined. (j, row2) \<in> set rows2 \<and> j \<notin> matched_indices_df2 st \<and>
       add_cols (df2 E) j (df2_non_key_cols E) (to_dict (df1 E) i) = Inr combined \<and>
       st' = st\<lparr>matched_rows := matched_rows st @ [combined],
                matched_indices_df2 := insert j (matched_indices_df2 st)\<rparr>))"
proof (induction rows2)
  case Nil
  then show ?case by simp
next
  case (Cons p rows2)
  obtain index2 row2 where p: "p = (index2, row2)" by (cases p)
  show ?case
  proof (cases "scan_df2 E i row1 (p # rows2) st = scan_df2 E i row1 rows2 st")
    case True
    with Cons show ?thesis by auto
  next
    case False
    with Cons.prems p show ?thesis
      by (auto split: if_splits sum.splits prod.splits)
  qed
qed

lemma scan_df2_skip:
  "\<forall>(j, r) \<in> set pre. j \<in> matched_indices_df2 st \<or>
      (\<exists>rs zs ws. key_scores (ratio E) (token_set_ratio E) (columns (df1_copy E)) row1
                     (columns (df2_copy E)) r = Inr (rs, zs, ws) \<and>
         \<not> (of_int (region_threshold E) \<le> rs \<and> of_int (zone_threshold E) \<le> zs \<and>
            of_int (woreda_threshold E) \<le> ws)) \<Longrightarrow>
   scan_df2 E i row1 (pre @ rest) st = scan_df2 E i row1 rest st"
  by (induction pre) auto

subsection \<open>The loop over the first table keeps the pairing\<close>

lemma pairing_inv_unmatched:
  "pairing_inv E k st pairs un \<Longrightarrow>
   pairing_inv E (Suc k)
     (st\<lparr>unmatched_df1_rows := unmatched_df1_rows st @ [to_dict (df1 E) k]\<rparr>) pairs (un @ [k])"
proof -
  assume inv: "pairing_inv E k st pairs un"
  then have fresh: "k \<notin> set (map fst pairs) \<union> set un"
    by (simp add: pairing_inv_def)
  from inv have "set (map fst pairs) \<union> set (un @ [k]) = {..<Suc k}"
    by (auto simp: pairing_inv_def lessThan_Suc)
  moreover from inv fresh have "distinct (map fst pairs @ un @ [k])"
    by (auto simp: pairing_inv_def)
  ultimately show ?thesis using inv by (simp add: pairing_inv_def)
qed

lemma pairing_inv_matched:
  assumes inv: "pairing_inv E k st pairs un"
    and j: "j \<notin> matched_indices_df2 st" "j < length (rows (df2_copy E))"
    and c: "add_cols (df2 E) j (df2_non_key_cols E) (to_dict (df1 E) k) = Inr combined"
  shows "pairing_inv E (Suc k)
     (st\<lparr>matched_rows := matched_rows st @ [combined],
         matched_indices_df2 := insert j (matched_indices_df2 st)\<rparr>) (pairs @ [(k, j)]) un"
proof -
  from inv have fresh: "k \<notin> set (map fst pairs) \<union> set un"
    by (simp add: pairing_inv_def)
  from inv have "set (map fst (pairs @ [(k, j)])) \<union> set un = {..<Suc k}"
    by (auto simp: pairing_inv_def lessThan_Suc)
  moreover from inv fresh have "distinct (map fst (pairs @ [(k, j)]) @ un)"
    by (auto simp: pairing_inv_def)
  moreover from inv j have "distinct (map snd (pairs @ [(k, j)]))"
    by (auto simp: pairing_inv_def)
  moreover from inv j have "snd ` set (pairs @ [(k, j)]) \<subseteq> {..<length (rows (df2_copy E))}"
    by (auto simp: pairing_inv_def)
  ultimately show ?thesis using inv c by (simp add: pairing_inv_def)
qed

lemma match_rows_inv:
  "match_rows E (enumerate k rows1) st = Inr st' \<Longrightarrow> pairing_inv E k st pairs un \<Longrightarrow>
   \<exists>pairs' un'. pairing_inv E (k + length rows1) st' pairs' un'"
proof (induction rows1 arbitrary: k st pairs un)
  case Nil
  then show ?case by auto
next
  case (Cons row1 rows1)
  from Cons.prems(1) obtain st1 found where
    scan: "scan_df2 E k row1 (enumerate 0 (rows (df2_copy E))) st = Inr (st1, found)"
    by (auto split: sum.splits)
  show ?case
  proof (cases found)
    case False
    with scan_df2_result [OF scan] have st1: "st1 = st" by simp
    let ?st2 = "st\<lparr>unmatched_df1_rows := unmatched_df1_rows st @ [to_dict (df1 E) k]\<rparr>"
    from Cons.prems(1) scan False st1 have "match_rows E (enumerate (Suc k) rows1) ?st2 = Inr st'"
      by simp
    from Cons.IH [OF this pairing_inv_unmatched [OF Cons.prems(2)]] show ?thesis by simp
  next
    case True
    with scan_df2_result [OF scan] obtain j row2 combined where
      mem: "(j, row2) \<in> set (enumerate 0 (rows (df2_copy E)))"
      and j: "j \<notin> matched_indices_df2 st"
      and c: "add_cols (df2 E) j (df2_non_key_cols E) (to_dict (df1 E) k) = Inr combined"
      and st1: "st1 = st\<lparr>matched_rows := matched_rows st @ [combined],
                         matched_indices_df2 := insert j (matched_indices_df2 st)\<rparr>"
      by auto
    from mem have jlt: "j < length (rows (df2_copy E))"
      by (auto simp: in_set_enumerate_eq)
    from Cons.prems(1) scan True have "match_rows E (enumerate (Suc k) rows1) st1 = Inr st'"
      by simp
    from Cons.IH [OF this [unfolded st1] pairing_inv_matched [OF Cons.prems(2) j jlt c]]
    show ?thesis by simp
  qed
qed

subsection \<open>The function in terms of the two tables\<close>

lemma working_copy_rows_length: "length (rows (working_copy df m)) = length (rows df)"
  unfolding working_copy_def using standardize_rows_length [of 0 "[df]" m] by simp

lemma match_and_merge_fst:
  assumes a1: "a1 < length s" and a2: "a2 < length s"
  shows "fst (match_and_merge_two_datasets rat tsr s a1 a2 m1 m2 rt zt wt) =
    (case fst (standardize [s ! a1] 0 m1) of Inl e \<Rightarrow> Inl e | Inr _ \<Rightarrow>
      (case fst (standardize [s ! a2] 0 m2) of Inl e \<Rightarrow> Inl e | Inr _ \<Rightarrow>
        (case match_rows (matcher_env rat tsr (s ! a1) (s ! a2) m1 m2 rt zt wt)
                (enumerate 0 (rows (working_copy (s ! a1) m1))) init_state of
           Inl e \<Rightarrow> Inl e
         | Inr st \<Rightarrow> Inr (matched_rows st, unmatched_df1_rows st,
                    \<lparr>columns = columns (s ! a2),
                     rows = map (\<lambda>i. rows (s ! a2) ! i)
                       (filter (\<lambda>i. i \<notin> matched_indices_df2 st) [0..<length (rows (s ! a2))])\<rparr>))))"
proof -
  let ?s2 = "s @ [s ! a1, s ! a2]"
  let ?c1 = "length s"
  let ?c2 = "Suc (length s)"
  obtain r3 s3 where st3: "standardize ?s2 ?c1 m1 = (r3, s3)"
    by (cases "standardize ?s2 ?c1 m1")
  obtain r4 s4 where st4: "standardize s3 ?c2 m2 = (r4, s4)"
    by (cases "standardize s3 ?c2 m2")
  have s3: "s3 = snd (standardize ?s2 ?c1 m1)" and s4: "s4 = snd (standardize s3 ?c2 m2)"
    by (simp_all add: st3 st4)
  have r3: "r3 = fst (standardize ?s2 ?c1 m1)" and r4: "r4 = fst (standardize s3 ?c2 m2)"
    by (simp_all add: st3 st4)
  have len3: "length s3 = Suc (Suc (length s))"
    by (simp add: s3 standardize_length)
  have s4a1: "s4 ! a1 = s ! a1" and s4a2: "s4 ! a2 = s ! a2"
    using a1 a2 by (simp_all add: s4 s3 standardize_frame nth_append)
  have loc1: "fst (standardize ?s2 ?c1 m1) = fst (standardize [s ! a1] 0 m1) \<and>
              snd (standardize ?s2 ?c1 m1) ! ?c1 = snd (standardize [s ! a1] 0 m1) ! 0"
    by (rule standardize_local) simp_all
  have s3c2: "s3 ! ?c2 = s ! a2"
    by (simp add: s3 standardize_frame nth_append)
  have loc2: "fst (standardize s3 ?c2 m2) = fst (standardize [s ! a2] 0 m2) \<and>
              snd (standardize s3 ?c2 m2) ! ?c2 = snd (standardize [s ! a2] 0 m2) ! 0"
    by (rule standardize_local) (simp_all add: len3 s3c2)
  have r3': "r3 = fst (standardize [s ! a1] 0 m1)" and r4': "r4 = fst (standardize [s ! a2] 0 m2)"
    using loc1 loc2 r3 r4 by simp_all
  have c1: "s4 ! ?c1 = working_copy (s ! a1) m1"
    using loc1 by (simp add: s4 standardize_frame s3 working_copy_def)
  have c2: "s4 ! ?c2 = working_copy (s ! a2) m2"
    using loc2 by (simp add: s4 working_copy_def)
  show ?thesis
    using a1 a2 unfolding r3' [symmetric] r4' [symmetric]
    by (simp add: match_and_merge_two_datasets_def copy_def Let_def nth_append st3 st4
        matcher_env_def init_state_def s4a1 s4a2 c1 c2 split: sum.splits)
qed

lemma match_and_merge_Inr:
  assumes res: "fst (match_and_merge_two_datasets rat tsr s a1 a2 m1 m2 rt zt wt) = Inr (merged, u1, u2)"
    and a1: "a1 < length s" and a2: "a2 < length s"
  shows "\<exists>st. match_rows (matcher_env rat tsr (s ! a1) (s ! a2) m1 m2 rt zt wt)
                (enumerate 0 (rows (working_copy (s ! a1) m1))) init_state = Inr st \<and>
      merged = matched_rows st \<and> u1 = unmatched_df1_rows st \<and>
      u2 = \<lparr>columns = columns (s ! a2),
            rows = map (\<lambda>i. rows (s ! a2) ! i)
                     (filter (\<lambda>i. i \<notin> matched_indices_df2 st) [0..<length (rows (s ! a2))])\<rparr>"
  using res unfolding match_and_merge_fst [OF a1 a2]
  by (auto split: sum.splits)

lemma match_and_merge_length:
  "length (snd (match_and_merge_two_datasets rat tsr s a1 a2 m1 m2 rt zt wt)) = Suc (Suc (length s))"
proof -
  let ?s2 = "(s @ [s ! a1]) @ [(s @ [s ! a1]) ! a2]"
  let ?s3 = "snd (standardize ?s2 (length s) m1)"
  let ?s4 = "snd (standardize ?s3 (Suc (length s)) m2)"
  have "snd (match_and_merge_two_datasets rat tsr s a1 a2 m1 m2 rt zt wt) = ?s3 \<or>
        snd (match_and_merge_two_datasets rat tsr s a1 a2 m1 m2 rt zt wt) = ?s4"
    by (auto simp: match_and_merge_two_datasets_def copy_def Let_def split: prod.splits sum.splits)
  moreover have "length ?s3 = Suc (Suc (length s))" "length ?s4 = Suc (Suc (length s))"
    by (simp_all add: standardize_length)
  ultimately show ?thesis by auto
qed

lemma example_run:
  "fst (match_and_merge_two_datasets fuzz_ratio fuzz_token_set_ratio
          [example_A, example_B] 0 1 mapping_A mapping_B 80 80 80)
   = Inr ([[(''Region'', Text '' Addis Ababa''), (''Zone'', Text ''Zone1''),
            (''Woreda'', Text ''W1''), (''val'', Num 5), (''note'', Text ''ok'')]],
          [[(''Region'', Text ''Oromia''), (''Zone'', Text ''Bale''),
            (''Woreda'', Text ''Goba''), (''val'', Num 20)]],
          \<lparr>columns = [''region'', ''ZONE'', ''woreda'', ''val'', ''note''],
           rows = [[Text ''Tigray'', Text ''Mekelle'', Text ''Adi'', Num 7, Text ''no'']]\<rparr>)"
  by code_simp

subsection \<open>The scan reaches the first row that is neither claimed nor rejected\<close>

lemma enumerate_split:
  "j < length xs \<Longrightarrow>
   enumerate 0 xs = enumerate 0 (take j xs) @ (j, xs ! j) # enumerate (Suc j) (drop (Suc j) xs)"
proof -
  assume j: "j < length xs"
  then have "xs = take j xs @ xs ! j # drop (Suc j) xs"
    by (rule id_take_nth_drop)
  then have "enumerate 0 xs = enumerate 0 (take j xs @ xs ! j # drop (Suc j) xs)"
    by simp
  also have "\<dots> = enumerate 0 (take j xs) @ (j, xs ! j) # enumerate (Suc j) (drop (Suc j) xs)"
    using j by (simp add: enumerate_append_eq min_def)
  finally show ?thesis .
qed

lemma scan_df2_first:
  assumes earlier: "\<forall>k<j. k \<in> matched_indices_df2 st \<or>
      (\<exists>rs' zs' ws'. key_scores (ratio E) (token_set_ratio E) (columns (df1_copy E)) row1
                     (columns (df2_copy E)) (rows2 ! k) = Inr (rs', zs', ws') \<and>
         \<not> (of_int (region_threshold E) \<le> rs' \<and> of_int (zone_threshold E) \<le> zs' \<and>
            of_int (woreda_threshold E) \<le> ws'))"
    and j: "j < length rows2"
  shows "scan_df2 E i row1 (enumerate 0 rows2) st =
         scan_df2 E i row1 ((j, rows2 ! j) # enumerate (Suc j) (drop (Suc j) rows2)) st"
proof -
  have "\<forall>(k, r) \<in> set (enumerate 0 (take j rows2)). k \<in> matched_indices_df2 st \<or>
      (\<exists>rs' zs' ws'. key_scores (ratio E) (token_set_ratio E) (columns (df1_copy E)) row1
                     (columns (df2_copy E)) r = Inr (rs', zs', ws') \<and>
         \<not> (of_int (region_threshold E) \<le> rs' \<and> of_int (zone_threshold E) \<le> zs' \<and>
            of_int (woreda_threshold E) \<le> ws'))"
    using earlier j by (auto simp: in_set_enumerate_eq)
  from scan_df2_skip [OF this] show ?thesis
    by (simp add: enumerate_split [OF j])
qed

lemma first_fit_env_fields:
  "region_threshold first_fit_env = 80" "zone_threshold first_fit_env = 80"
  "woreda_threshold first_fit_env = 80"
  by (simp_all add: first_fit_env_def matcher_env_def)

lemma first_fit_scores:
  "key_scores (ratio first_fit_env) (token_set_ratio first_fit_env) (columns (df1_copy first_fit_env))
     [Text ''addis ababa'', Text ''bole'', Text ''w1''] (columns (df2_copy first_fit_env))
     (rows (df2_copy first_fit_env) ! 0) = Inr (400 / 17, 100, 100)"
  "key_scores (ratio first_fit_env) (token_set_ratio first_fit_env) (columns (df1_copy first_fit_env))
     [Text ''addis ababa'', Text ''bole'', Text ''w1''] (columns (df2_copy first_fit_env))
     (rows (df2_copy first_fit_env) ! 1) = Inr (1000 / 11, 100, 100)"
  "key_scores (ratio first_fit_env) (token_set_ratio first_fit_env) (columns (df1_copy first_fit_env))
     [Text ''addis ababa'', Text ''bole'', Text ''w1''] (columns (df2_copy first_fit_env))
     (rows (df2_copy first_fit_env) ! 2) = Inr (100, 100, 100)"
  by code_simp+

lemma boundary_env_fields:
  "region_threshold boundary_env = 50" "zone_threshold boundary_env = 100"
  "woreda_threshold boundary_env = 100"
  by (simp_all add: boundary_env_def matcher_env_def)

lemma boundary_scores:
  "key_scores (ratio boundary_env) (token_set_ratio boundary_env) (columns (df1_copy boundary_env))
     [Text ''ab'', Text ''bole'', Text ''w1''] (columns (df2_copy boundary_env))
     (rows (df2_copy boundary_env) ! 0) = Inr (50, 100, 100)"
  by code_simp

subsection \<open>Every merged row is the combined row of a pair\<close>

lemma merged_rows_pairs:
  assumes res: "fst (match_and_merge_two_datasets rat tsr s a1 a2 m1 m2 rt zt wt)
                  = Inr (merged, unmatched1, unmatched2)"
    and a1: "a1 < length s" and a2: "a2 < length s"
  shows "\<exists>pairs. length pairs = length merged \<and>
      (\<forall>k<length merged.
         fst (pairs ! k) < length (rows (s ! a1)) \<and> snd (pairs ! k) < length (rows (s ! a2)) \<and>
         add_cols (s ! a2) (snd (pairs ! k))
           (filter (\<lambda>col. col \<notin> snd ` set m2) (columns (s ! a2)))
           (to_dict (s ! a1) (fst (pairs ! k))) = Inr (merged ! k))"
proof -
  let ?E = "matcher_env rat tsr (s ! a1) (s ! a2) m1 m2 rt zt wt"
  let ?f = "\<lambda>(i, j). add_cols (df2 ?E) j (df2_non_key_cols ?E) (to_dict (df1 ?E) i)"
  from match_and_merge_Inr [OF res a1 a2] obtain st where
    mr: "match_rows ?E (enumerate 0 (rows (working_copy (s ! a1) m1))) init_state = Inr st"
    and out: "merged = matched_rows st"
    by blast
  have "pairing_inv ?E 0 init_state [] []"
    by (simp add: pairing_inv_def init_state_def)
  from match_rows_inv [OF mr this] obtain pairs un where
    inv: "pairing_inv ?E (length (rows (s ! a1))) st pairs un"
    by (auto simp: working_copy_rows_length)
  have E: "df1 ?E = s ! a1" "df2 ?E = s ! a2"
    "df2_non_key_cols ?E = filter (\<lambda>col. col \<notin> snd ` set m2) (columns (s ! a2))"
    "length (rows (df2_copy ?E)) = length (rows (s ! a2))"
    by (simp_all add: matcher_env_def working_copy_rows_length)
  from inv have maps: "map ?f pairs = map Inr merged"
    and fsts: "set (map fst pairs) \<subseteq> {..<length (rows (s ! a1))}"
    and snds: "snd ` set pairs \<subseteq> {..<length (rows (s ! a2))}"
    unfolding pairing_inv_def out E by auto
  from maps have len: "length pairs = length merged"
    using length_map by metis
  have "fst (pairs ! k) < length (rows (s ! a1)) \<and> snd (pairs ! k) < length (rows (s ! a2)) \<and>
         add_cols (s ! a2) (snd (pairs ! k))
           (filter (\<lambda>col. col \<notin> snd ` set m2) (columns (s ! a2)))
           (to_dict (s ! a1) (fst (pairs ! k))) = Inr (merged ! k)" if k: "k < length merged" for k
  proof -
    from k len have mem: "pairs ! k \<in> set pairs" by simp
    from maps have "map ?f pairs ! k = map Inr merged ! k" by simp
    with k len have "?f (pairs ! k) = Inr (merged ! k)" by simp
    then have "add_cols (s ! a2) (snd (pairs ! k))
           (filter (\<lambda>col. col \<notin> snd ` set m2) (columns (s ! a2)))
           (to_dict (s ! a1) (fst (pairs ! k))) = Inr (merged ! k)"
      unfolding E by (simp add: case_prod_beta)
    moreover from mem fsts have "fst (pairs ! k) < length (rows (s ! a1))" by auto
    moreover from mem snds have "snd (pairs ! k) < length (rows (s ! a2))" by auto
    ultimately show ?thesis by blast
  qed
  with len show ?thesis by blast
qed

subsection \<open>One step of the normalization loop\<close>

lemma index_of_nth: "index_of xs x = Some i \<Longrightarrow> j < i \<Longrightarrow> xs ! j \<noteq> x"
proof (induction xs arbitrary: i j)
  case Nil
  then show ?case by simp
next
  case (Cons y ys)
  then show ?case by (cases j) (auto split: if_splits)
qed

lemma index_of_update_other:
  "index_of xs a = Some i \<Longrightarrow> c \<noteq> a \<Longrightarrow> c \<noteq> k \<Longrightarrow> index_of (xs[i := k]) c = index_of xs c"
  by (induction xs arbitrary: i) (auto split: if_splits)

lemma index_of_update_new:
  "index_of xs a = Some i \<Longrightarrow> k \<notin> set xs \<Longrightarrow> index_of (xs[i := k]) k = Some i"
  by (induction xs arbitrary: i) (auto split: if_splits)

lemma rename_eq_update:
  "distinct xs \<Longrightarrow> index_of xs a = Some i \<Longrightarrow> map (\<lambda>c. if c = a then k else c) xs = xs[i := k]"
proof (induction xs arbitrary: i)
  case Nil
  then show ?case by simp
next
  case (Cons x xs)
  show ?case
  proof (cases "x = a")
    case True
    with Cons.prems have "a \<notin> set xs" "i = 0" by auto
    then have "map (\<lambda>c. if c = a then k else c) xs = xs"
      by (intro map_idI) auto
    with True \<open>i = 0\<close> show ?thesis by simp
  next
    case False
    with Cons.prems obtain i' where "index_of xs a = Some i'" "i = Suc i'"
      by auto
    with Cons False show ?thesis by simp
  qed
qed

lemma count_list_update_new:
  "k \<notin> set xs \<Longrightarrow> i < length xs \<Longrightarrow> count_list (xs[i := k]) k = 1"
proof (induction xs arbitrary: i)
  case Nil
  then show ?case by simp
next
  case (Cons x xs)
  then show ?case by (cases i) (auto simp: count_list_0_iff)
qed

lemma normalize_renamed:
  assumes d: "distinct (columns df)" and i: "index_of (columns df) a = Some i"
    and k: "k \<notin> set (columns df)"
  shows "normalize_column (rename df a k) k =
         Inr (df\<lparr>columns := (columns df)[i := k],
                 rows := map (\<lambda>r. r[i := normalize_cell (r ! i)]) (rows df)\<rparr>)"
proof -
  have cols: "columns (rename df a k) = (columns df)[i := k]"
    by (simp add: rename_def rename_eq_update [OF d i])
  have ix: "index_of ((columns df)[i := k]) k = Some i"
    by (rule index_of_update_new [OF i k])
  from index_of_Some [OF i] have "i < length (columns df)" by simp
  then have cnt: "count_list ((columns df)[i := k]) k = 1"
    by (rule count_list_update_new [OF k])
  have "rename df a k = df\<lparr>columns := (columns df)[i := k]\<rparr>"
    by (simp add: rename_def rename_eq_update [OF d i])
  then show ?thesis
    unfolding normalize_column_def cols ix by (simp add: cnt)
qed

lemma distinct_update_new: "distinct xs \<Longrightarrow> k \<notin> set xs \<Longrightarrow> distinct (xs[i := k])"
proof (induction xs arbitrary: i)
  case Nil
  then show ?case by simp
next
  case (Cons x xs)
  then show ?case
    by (cases i) (auto dest: set_update_subset_insert [THEN subsetD])
qed


lemma getitem_renamed_new:
  assumes i: "index_of cols a = Some i" and k: "k \<notin> set cols" and len: "length row = length cols"
  shows "getitem (cols[i := k]) (row[i := x]) k = Inr x"
proof -
  from index_of_Some [OF i] len have "i < length row" by simp
  then show ?thesis
    by (simp add: getitem_def index_of_update_new [OF i k])
qed

lemma getitem_renamed_other:
  assumes i: "index_of cols a = Some i" and c: "c \<noteq> a" "c \<noteq> k"
  shows "getitem (cols[i := k]) (row[i := x]) c = getitem cols row c"
proof (cases "index_of cols c")
  case None
  then show ?thesis
    by (simp add: getitem_def index_of_update_other [OF i c])
next
  case (Some j)
  from index_of_Some [OF Some] index_of_Some [OF i] c(1) have "j \<noteq> i" by auto
  with Some show ?thesis
    by (simp add: getitem_def index_of_update_other [OF i c])
qed

subsection \<open>What the working copy holds after the normalization loop\<close>

lemma standardize_step_rename:
  "a \<noteq> k \<Longrightarrow> normalize_column (rename df a k) k = Inr dfr \<Longrightarrow>
   standardize [df] 0 ((k, a) # m) = standardize [dfr] 0 m"
  by (simp add: Let_def)

lemma standardize_step_same: "standardize [df] 0 ((k, k) # m) = standardize [df] 0 m"
  by simp

lemma mapping_ok_tail_same:
  "mapping_ok cols ((k, a) # m) \<Longrightarrow> mapping_ok cols m"
  by (auto simp: mapping_ok_def)

lemma mapping_ok_tail_renamed:
  assumes ok: "mapping_ok cols ((k, a) # m)" and ne: "a \<noteq> k" and i: "index_of cols a = Some i"
  shows "mapping_ok (cols[i := k]) m"
proof -
  from index_of_Some [OF i] have ia: "i < length cols" "cols ! i = a" by simp_all
  have sub: "set (cols[i := k]) \<subseteq> insert k (set cols)"
    by (rule set_update_subset_insert)
  from ok have keys: "k \<notin> fst ` set m" and acts: "a \<notin> snd ` set m"
    by (auto simp: mapping_ok_def)
  have "set (map snd m) \<subseteq> set (cols[i := k])"
  proof
    fix x assume x: "x \<in> set (map snd m)"
    with ok have "x \<in> set cols" by (auto simp: mapping_ok_def)
    then obtain j where j: "j < length cols" "cols ! j = x" by (auto simp: in_set_conv_nth)
    from x acts have "x \<noteq> a" by auto
    with j ia have "j \<noteq> i" by auto
    with j have "cols[i := k] ! j = x" "j < length (cols[i := k])" by simp_all
    then show "x \<in> set (cols[i := k])" by (metis nth_mem)
  qed
  moreover have "\<forall>(k', a') \<in> set m. k' \<noteq> a' \<longrightarrow> k' \<notin> set (cols[i := k])"
  proof (clarify)
    fix k' a' assume m: "(k', a') \<in> set m" and ne': "k' \<noteq> a'" and mem: "k' \<in> set (cols[i := k])"
    from m ok ne' have "k' \<notin> set cols" by (auto simp: mapping_ok_def)
    moreover from m keys have "k' \<noteq> k" by force
    ultimately show False using mem sub by auto
  qed
  ultimately show ?thesis using ok by (auto simp: mapping_ok_def)
qed

lemma working_copy_char:
  assumes "wf_frame df" and "mapping_ok (columns df) m"
  shows "fst (standardize [df] 0 m) = Inr () \<and>
         wf_frame (working_copy df m) \<and>
         (\<forall>(k, a) \<in> set m. \<forall>r < length (rows df). \<exists>v.
            getitem (columns df) (rows df ! r) a = Inr v \<and>
            getitem (columns (working_copy df m)) (rows (working_copy df m) ! r) k
              = Inr (if a \<noteq> k then normalize_cell v else v)) \<and>
         (\<forall>col. col \<notin> fst ` set m \<and> col \<notin> snd ` set m \<longrightarrow>
            (\<forall>r < length (rows df).
               getitem (columns (working_copy df m)) (rows (working_copy df m) ! r) col
               = getitem (columns df) (rows df ! r) col))"
  using assms
proof (induction m arbitrary: df)
  case Nil
  then show ?case by (simp add: working_copy_def)
next
  case (Cons item m)
  obtain k a where item: "item = (k, a)" by (cases item)
  from Cons.prems(2) item have ok: "mapping_ok (columns df) ((k, a) # m)" by simp
  from ok have a_col: "a \<in> set (columns df)" and k_fresh: "a \<noteq> k \<Longrightarrow> k \<notin> set (columns df)"
    and k_keys: "k \<notin> fst ` set m" and a_acts: "a \<notin> snd ` set m"
    by (auto simp: mapping_ok_def)
  from a_col obtain i where i: "index_of (columns df) a = Some i"
    using index_of_None [of "columns df" a] by (cases "index_of (columns df) a") auto
  from Cons.prems(1) have dist: "distinct (columns df)"
    and lens: "\<And>r. r < length (rows df) \<Longrightarrow> length (rows df ! r) = length (columns df)"
    by (auto simp: wf_frame_def)
  have orig_a: "getitem (columns df) row a = Inr (row ! i)" for row
    by (simp add: getitem_def i)
  show ?case
  proof (cases "a = k")
    case True
    have wc: "working_copy df (item # m) = working_copy df m"
      and fs: "fst (standardize [df] 0 (item # m)) = fst (standardize [df] 0 m)"
      by (simp_all add: working_copy_def item True)
    note IH = Cons.IH [OF Cons.prems(1) mapping_ok_tail_same [OF ok]]
    from IH have ih_ok: "fst (standardize [df] 0 m) = Inr ()"
      and ih_wf: "wf_frame (working_copy df m)"
      by (rule conjunct1, rule conjunct2 [THEN conjunct1])
    from IH have ih_ent: "\<forall>(k', a') \<in> set m. \<forall>r < length (rows df). \<exists>v.
            getitem (columns df) (rows df ! r) a' = Inr v \<and>
            getitem (columns (working_copy df m)) (rows (working_copy df m) ! r) k'
              = Inr (if a' \<noteq> k' then normalize_cell v else v)"
      by (rule conjunct2 [THEN conjunct2, THEN conjunct1])
    from IH have ih_frame: "\<forall>col. col \<notin> fst ` set m \<and> col \<notin> snd ` set m \<longrightarrow>
            (\<forall>r < length (rows df).
               getitem (columns (working_copy df m)) (rows (working_copy df m) ! r) col
               = getitem (columns df) (rows df ! r) col)"
      by (rule conjunct2 [THEN conjunct2, THEN conjunct2])
    from ih_frame [THEN spec, of k] k_keys a_acts True have keep: "\<forall>r < length (rows df).
        getitem (columns (working_copy df m)) (rows (working_copy df m) ! r) k
        = getitem (columns df) (rows df ! r) k"
      by simp
    have head: "\<forall>r < length (rows df). \<exists>v.
            getitem (columns df) (rows df ! r) a = Inr v \<and>
            getitem (columns (working_copy df m)) (rows (working_copy df m) ! r) k
              = Inr (if a \<noteq> k then normalize_cell v else v)"
      using keep orig_a True by simp
    have frame: "\<forall>col. col \<notin> fst ` set (item # m) \<and> col \<notin> snd ` set (item # m) \<longrightarrow>
            (\<forall>r < length (rows df).
               getitem (columns (working_copy df m)) (rows (working_copy df m) ! r) col
               = getitem (columns df) (rows df ! r) col)"
      using ih_frame by simp
    have ents: "\<forall>(k', a') \<in> set (item # m). \<forall>r < length (rows df). \<exists>v.
            getitem (columns df) (rows df ! r) a' = Inr v \<and>
            getitem (columns (working_copy df m)) (rows (working_copy df m) ! r) k'
              = Inr (if a' \<noteq> k' then normalize_cell v else v)"
      using head ih_ent by (simp add: item)
    show ?thesis
      unfolding wc fs by (intro conjI ih_ok ih_wf ents frame)
  next
    case False
    define dfr where "dfr = df\<lparr>columns := (columns df)[i := k],
                 rows := map (\<lambda>r. r[i := normalize_cell (r ! i)]) (rows df)\<rparr>"
    from False have kf: "k \<notin> set (columns df)" by (rule k_fresh)
    have nr: "normalize_column (rename df a k) k = Inr dfr"
      unfolding dfr_def by (rule normalize_renamed [OF dist i kf])
    have st: "standardize [df] 0 (item # m) = standardize [dfr] 0 m"
      unfolding item by (rule standardize_step_rename [OF False nr])
    then have wc: "working_copy df (item # m) = working_copy dfr m"
      by (simp add: working_copy_def)
    have cols1: "columns dfr = (columns df)[i := k]"
      and rows1: "length (rows dfr) = length (rows df)"
      and row1: "\<And>r. r < length (rows df) \<Longrightarrow>
                  rows dfr ! r = (rows df ! r)[i := normalize_cell (rows df ! r ! i)]"
      by (simp_all add: dfr_def)
    have wf1: "wf_frame dfr"
      using Cons.prems(1) by (auto simp: wf_frame_def dfr_def distinct_update_new [OF _ kf])
    have ok1: "mapping_ok (columns dfr) m"
      unfolding cols1 by (rule mapping_ok_tail_renamed [OF ok False i])
    note IH = Cons.IH [OF wf1 ok1, unfolded rows1]
    from IH have ih_ok: "fst (standardize [dfr] 0 m) = Inr ()"
      and ih_wf: "wf_frame (working_copy dfr m)"
      by (rule conjunct1, rule conjunct2 [THEN conjunct1])
    from IH have ih_ent: "\<forall>(k', a') \<in> set m. \<forall>r < length (rows df). \<exists>v.
            getitem (columns dfr) (rows dfr ! r) a' = Inr v \<and>
            getitem (columns (working_copy dfr m)) (rows (working_copy dfr m) ! r) k'
              = Inr (if a' \<noteq> k' then normalize_cell v else v)"
      by (rule conjunct2 [THEN conjunct2, THEN conjunct1])
    from IH have ih_frame: "\<forall>col. col \<notin> fst ` set m \<and> col \<notin> snd ` set m \<longrightarrow>
            (\<forall>r < length (rows df).
               getitem (columns (working_copy dfr m)) (rows (working_copy dfr m) ! r) col
               = getitem (columns dfr) (rows dfr ! r) col)"
      by (rule conjunct2 [THEN conjunct2, THEN conjunct2])
    have new_k: "getitem (columns dfr) (rows dfr ! r) k = Inr (normalize_cell (rows df ! r ! i))"
      if "r < length (rows df)" for r
      unfolding cols1 row1 [OF that] by (rule getitem_renamed_new [OF i kf lens [OF that]])
    have other: "getitem (columns dfr) (rows dfr ! r) c = getitem (columns df) (rows df ! r) c"
      if "r < length (rows df)" "c \<noteq> a" "c \<noteq> k" for r c
      unfolding cols1 row1 [OF that(1)] by (rule getitem_renamed_other [OF i that(2,3)])
    from ok kf have k_acts: "k \<notin> snd ` set m"
      by (auto simp: mapping_ok_def)
    from ih_frame [THEN spec, of k] k_keys k_acts have keep_k: "\<forall>r < length (rows df).
        getitem (columns (working_copy dfr m)) (rows (working_copy dfr m) ! r) k
        = getitem (columns dfr) (rows dfr ! r) k"
      by simp
    have head: "\<forall>r < length (rows df). \<exists>v.
            getitem (columns df) (rows df ! r) a = Inr v \<and>
            getitem (columns (working_copy dfr m)) (rows (working_copy dfr m) ! r) k
              = Inr (if a \<noteq> k then normalize_cell v else v)"
      using keep_k new_k orig_a False by simp
    have tail: "\<forall>(k', a') \<in> set m. \<forall>r < length (rows df). \<exists>v.
            getitem (columns df) (rows df ! r) a' = Inr v \<and>
            getitem (columns (working_copy dfr m)) (rows (working_copy dfr m) ! r) k'
              = Inr (if a' \<noteq> k' then normalize_cell v else v)"
    proof (intro ballI, clarify)
      fix k' a' r assume m: "(k', a') \<in> set m" and r: "r < length (rows df)"
      from m a_acts have "a' \<noteq> a" by force
      moreover from m ok kf have "a' \<noteq> k" by (auto simp: mapping_ok_def)
      ultimately have same: "getitem (columns dfr) (rows dfr ! r) a' = getitem (columns df) (rows df ! r) a'"
        by (rule other [OF r])
      from ih_ent [THEN bspec, OF m] r have "\<exists>v.
            getitem (columns dfr) (rows dfr ! r) a' = Inr v \<and>
            getitem (columns (working_copy dfr m)) (rows (working_copy dfr m) ! r) k'
              = Inr (if a' \<noteq> k' then normalize_cell v else v)"
        by simp
      then show "\<exists>v.
            getitem (columns df) (rows df ! r) a' = Inr v \<and>
            getitem (columns (working_copy dfr m)) (rows (working_copy dfr m) ! r) k'
              = Inr (if a' \<noteq> k' then normalize_cell v else v)"
        unfolding same .
    qed
    have frame: "\<forall>col. col \<notin> fst ` set (item # m) \<and> col \<notin> snd ` set (item # m) \<longrightarrow>
            (\<forall>r < length (rows df).
               getitem (columns (working_copy dfr m)) (rows (working_copy dfr m) ! r) col
               = getitem (columns df) (rows df ! r) col)"
    proof (intro allI impI)
      fix col r assume c: "col \<notin> fst ` set (item # m) \<and> col \<notin> snd ` set (item # m)"
        and r: "r < length (rows df)"
      from c item have ne: "col \<noteq> a" "col \<noteq> k" and nm: "col \<notin> fst ` set m \<and> col \<notin> snd ` set m"
        by auto
      from ih_frame [THEN spec, of col] nm r have
        "getitem (columns (working_copy dfr m)) (rows (working_copy dfr m) ! r) col
         = getitem (columns dfr) (rows dfr ! r) col"
        by simp
      also have "\<dots> = getitem (columns df) (rows df ! r) col"
        by (rule other [OF r ne])
      finally show
        "getitem (columns (working_copy dfr m)) (rows (working_copy dfr m) ! r) col
               = getitem (columns df) (rows df ! r) col" .
    qed
    have ents: "\<forall>(k', a') \<in> set (item # m). \<forall>r < length (rows df). \<exists>v.
            getitem (columns df) (rows df ! r) a' = Inr v \<and>
            getitem (columns (working_copy dfr m)) (rows (working_copy dfr m) ! r) k'
              = Inr (if a' \<noteq> k' then normalize_cell v else v)"
      using head tail by (simp add: item)
    show ?thesis
      unfolding wc st by (intro conjI ih_ok ih_wf ents frame)
  qed
qed

subsection \<open>The best choice is the first one with the highest score\<close>

lemma first_max_single: "is_first_max sc q [c] 0"
  by (simp add: is_first_max_def)

lemma first_max_snoc_keep:
  "is_first_max sc q pre b \<Longrightarrow> \<not> sc q (pre ! b) < sc q c \<Longrightarrow> is_first_max sc q (pre @ [c]) b"
  by (auto simp: is_first_max_def nth_append less_Suc_eq)

lemma first_max_snoc_new:
  "is_first_max sc q pre b \<Longrightarrow> sc q (pre ! b) < sc q c \<Longrightarrow>
   is_first_max sc q (pre @ [c]) (length pre)"
  by (fastforce simp: is_first_max_def nth_append less_Suc_eq)

lemma extractOne_loop_first_max:
  "is_first_max sc q pre b \<Longrightarrow>
   extractOne_loop sc q cs (length pre) (Some (pre ! b, sc q (pre ! b), b)) = Some (c, s, k) \<Longrightarrow>
   is_first_max sc q (pre @ cs) k \<and> c = (pre @ cs) ! k \<and> s = sc q c"
proof (induction cs arbitrary: pre b)
  case Nil
  then show ?case by auto
next
  case (Cons x xs)
  let ?pre = "pre @ [x]"
  from Cons.prems(1) have b: "b < length pre" by (simp add: is_first_max_def)
  show ?case
  proof (cases "sc q (pre ! b) < sc q x")
    case True
    have fm: "is_first_max sc q ?pre (length pre)"
      by (rule first_max_snoc_new [OF Cons.prems(1) True])
    from Cons.prems(2) True have
      "extractOne_loop sc q xs (length ?pre)
         (Some (?pre ! length pre, sc q (?pre ! length pre), length pre)) = Some (c, s, k)"
      by simp
    from Cons.IH [OF fm this] show ?thesis by simp
  next
    case False
    have fm: "is_first_max sc q ?pre b"
      by (rule first_max_snoc_keep [OF Cons.prems(1) False])
    from Cons.prems(2) False b have
      "extractOne_loop sc q xs (length ?pre) (Some (?pre ! b, sc q (?pre ! b), b)) = Some (c, s, k)"
      by (simp add: nth_append)
    from Cons.IH [OF fm this] show ?thesis by simp
  qed
qed

lemma extractOne_loop_Some: "\<exists>r. extractOne_loop sc q cs i (Some b) = Some r"
  by (induction cs arbitrary: i b) (auto simp: Let_def split: prod.splits)

lemma extractOne_Nil: "extractOne sc q [] = None"
  by (simp add: extractOne_def)

lemma extractOne_Some:
  assumes "cs \<noteq> []"
  shows "\<exists>k. extractOne sc q cs = Some (cs ! k, sc q (cs ! k), k) \<and> is_first_max sc q cs k"
proof -
  from assms obtain x xs where cs: "cs = x # xs" by (cases cs) auto
  have start: "extractOne sc q cs =
        extractOne_loop sc q xs (length [x]) (Some ([x] ! 0, sc q ([x] ! 0), 0))"
    by (simp add: extractOne_def cs)
  obtain c s k where r: "extractOne sc q cs = Some (c, s, k)"
    unfolding start using extractOne_loop_Some [of sc q xs "length [x]"] by (metis prod_cases3)
  from extractOne_loop_first_max [OF first_max_single r [unfolded start]]
  have "is_first_max sc q cs k" "c = cs ! k" "s = sc q c"
    by (simp_all add: cs)
  with r show ?thesis by auto
qed

lemma index_of_first_max:
  assumes fm: "is_first_max sc q xs k"
  shows "index_of xs (xs ! k) = Some k"
proof -
  from fm have k: "k < length xs" by (simp add: is_first_max_def)
  then have "xs ! k \<in> set xs" by simp
  then obtain i where i: "index_of xs (xs ! k) = Some i"
    using index_of_None [of xs "xs ! k"] by (cases "index_of xs (xs ! k)") auto
  from index_of_Some [OF i] have eq: "xs ! i = xs ! k" by simp
  have "\<not> i < k"
  proof
    assume "i < k"
    with fm have "sc q (xs ! i) < sc q (xs ! k)" by (simp add: is_first_max_def)
    with eq show False by simp
  qed
  moreover have "\<not> k < i"
    using index_of_nth [OF i] by blast
  ultimately show ?thesis using i by simp
qed


lemma extractOne_cases:
  "(N = [] \<and> extractOne sc q N = None) \<or>
   (\<exists>k. extractOne sc q N = Some (N ! k, sc q (N ! k), k) \<and> is_first_max sc q N k \<and>
        index_of N (N ! k) = Some k)"
proof (cases "N = []")
  case True
  then show ?thesis by (simp add: extractOne_Nil)
next
  case False
  from extractOne_Some [OF False] obtain k where
    "extractOne sc q N = Some (N ! k, sc q (N ! k), k)" "is_first_max sc q N k"
    by blast
  with index_of_first_max [of sc q N k] show ?thesis by blast
qed

lemma map_columns_loop_char:
  fixes sc df_columns N
  defines "R \<equiv> \<lambda>req. (case extractOne sc req N of
                          None \<Rightarrow> None
                        | Some (choice, score, i) \<Rightarrow>
                            if 85 \<le> score then Some (df_columns ! i) else None)"
  shows "\<exists>mp' ms'. map_columns_loop sc df_columns N required (mp, ms) = Inr (mp', ms') \<and>
           (\<forall>q. map_of mp' q = (if q \<in> set required \<and> R q \<noteq> None then R q else map_of mp q)) \<and>
           set ms' = set ms \<union> {q \<in> set required. R q = None}"
proof (induction required arbitrary: mp ms)
  case Nil
  then show ?case by simp
next
  case (Cons req rest)
  show ?case
  proof (cases "R req")
    case None
    from Cons.IH [of mp "ms @ [req]"] obtain mp' ms' where
      run: "map_columns_loop sc df_columns N rest (mp, ms @ [req]) = Inr (mp', ms')"
      and mp': "\<forall>q. map_of mp' q = (if q \<in> set rest \<and> R q \<noteq> None then R q else map_of mp q)"
      and ms': "set ms' = set (ms @ [req]) \<union> {q \<in> set rest. R q = None}"
      by blast
    from None have "map_columns_loop sc df_columns N (req # rest) (mp, ms)
        = map_columns_loop sc df_columns N rest (mp, ms @ [req])"
      by (auto simp: R_def split: option.splits if_splits)
    with run have "map_columns_loop sc df_columns N (req # rest) (mp, ms) = Inr (mp', ms')"
      by simp
    moreover from mp' None have
      "\<forall>q. map_of mp' q = (if q \<in> set (req # rest) \<and> R q \<noteq> None then R q else map_of mp q)"
      by auto
    moreover from ms' None have "set ms' = set ms \<union> {q \<in> set (req # rest). R q = None}"
      by auto
    ultimately show ?thesis by blast
  next
    case (Some v)
    from Some extractOne_cases [of N sc req] obtain k where
      ex: "extractOne sc req N = Some (N ! k, sc req (N ! k), k)"
      and ix: "index_of N (N ! k) = Some k"
      by (auto simp: R_def)
    from Some ex have ok: "85 \<le> sc req (N ! k)" and v: "v = df_columns ! k"
      by (auto simp: R_def split: if_splits)
    from Cons.IH [of "AList.update req v mp" ms] obtain mp' ms' where
      run: "map_columns_loop sc df_columns N rest (AList.update req v mp, ms) = Inr (mp', ms')"
      and mp': "\<forall>q. map_of mp' q =
                  (if q \<in> set rest \<and> R q \<noteq> None then R q else map_of (AList.update req v mp) q)"
      and ms': "set ms' = set ms \<union> {q \<in> set rest. R q = None}"
      by blast
    from ex ix ok v have "map_columns_loop sc df_columns N (req # rest) (mp, ms)
        = map_columns_loop sc df_columns N rest (AList.update req v mp, ms)"
      by simp
    with run have "map_columns_loop sc df_columns N (req # rest) (mp, ms) = Inr (mp', ms')"
      by simp
    moreover from mp' Some have
      "\<forall>q. map_of mp' q = (if q \<in> set (req # rest) \<and> R q \<noteq> None then R q else map_of mp q)"
      by (auto simp: update_conv')
    moreover from ms' Some have "set ms' = set ms \<union> {q \<in> set (req # rest). R q = None}"
      by auto
    ultimately show ?thesis by blast
  qed
qed

subsection \<open>The function returns on well-formed input\<close>

text \<open>
  For tables with distinct column names and complete mappings that the normalization
  loop runs through, no lookup fails and the function returns its three tables.
\<close>

lemma key_scores_Inr:
  assumes "\<forall>key \<in> {''region'', ''zone'', ''woreda''}. \<exists>v. getitem cols1 row1 key = Inr v"
    and "\<forall>key \<in> {''region'', ''zone'', ''woreda''}. \<exists>v. getitem cols2 row2 key = Inr v"
  shows "\<exists>rs zs ws. key_scores sc tsr cols1 row1 cols2 row2 = Inr (rs, zs, ws)"
proof -
  from assms(1) obtain r1 z1 w1 where
    "getitem cols1 row1 ''region'' = Inr r1" "getitem cols1 row1 ''zone'' = Inr z1"
    "getitem cols1 row1 ''woreda'' = Inr w1"
    by auto
  moreover from assms(2) obtain r2 z2 w2 where
    "getitem cols2 row2 ''region'' = Inr r2" "getitem cols2 row2 ''zone'' = Inr z2"
    "getitem cols2 row2 ''woreda'' = Inr w2"
    by auto
  ultimately show ?thesis
    by (simp add: key_scores_def bind_err_def)
qed

lemma scan_df2_returns:
  assumes k1: "\<forall>key \<in> {''region'', ''zone'', ''woreda''}.
                 \<exists>v. getitem (columns (df1_copy E)) row1 key = Inr v"
    and k2: "\<forall>(j, row2) \<in> set rows2. \<forall>key \<in> {''region'', ''zone'', ''woreda''}.
                 \<exists>v. getitem (columns (df2_copy E)) row2 key = Inr v"
    and cols: "set (df2_non_key_cols E) \<subseteq> set (columns (df2 E))"
  shows "\<exists>st' found. scan_df2 E i row1 rows2 st = Inr (st', found)"
  using k2
proof (induction rows2)
  case Nil
  show ?case by simp blast
next
  case (Cons p rows2)
  obtain index2 row2 where p: "p = (index2, row2)" by (cases p)
  from Cons.prems p have "\<forall>key \<in> {''region'', ''zone'', ''woreda''}.
                 \<exists>v. getitem (columns (df2_copy E)) row2 key = Inr v"
    by simp
  from key_scores_Inr [OF k1 this] obtain rs zs ws where
    sc: "key_scores (ratio E) (token_set_ratio E) (columns (df1_copy E)) row1
           (columns (df2_copy E)) row2 = Inr (rs, zs, ws)"
    by blast
  from add_cols_Inr [OF cols] obtain combined where
    ac: "add_cols (df2 E) index2 (df2_non_key_cols E) (to_dict (df1 E) i) = Inr combined"
    by blast
  from Cons have IH: "\<exists>st' found. scan_df2 E i row1 rows2 st = Inr (st', found)"
    by simp
  show ?case
    unfolding p using sc ac IH by auto
qed

lemma match_rows_returns:
  assumes k1: "\<forall>(i, row1) \<in> set rows1. \<forall>key \<in> {''region'', ''zone'', ''woreda''}.
                 \<exists>v. getitem (columns (df1_copy E)) row1 key = Inr v"
    and k2: "\<forall>(j, row2) \<in> set (enumerate 0 (rows (df2_copy E))).
                 \<forall>key \<in> {''region'', ''zone'', ''woreda''}.
                 \<exists>v. getitem (columns (df2_copy E)) row2 key = Inr v"
    and cols: "set (df2_non_key_cols E) \<subseteq> set (columns (df2 E))"
  shows "\<exists>st'. match_rows E rows1 st = Inr st'"
  using k1
proof (induction rows1 arbitrary: st)
  case Nil
  then show ?case by simp
next
  case (Cons p rows1)
  obtain index1 row1 where p: "p = (index1, row1)" by (cases p)
  from Cons.prems p have "\<forall>key \<in> {''region'', ''zone'', ''woreda''}.
                 \<exists>v. getitem (columns (df1_copy E)) row1 key = Inr v"
    by simp
  from scan_df2_returns [OF this k2 cols] obtain st1 found where
    scan: "scan_df2 E index1 row1 (enumerate 0 (rows (df2_copy E))) st = Inr (st1, found)"
    by blast
  from Cons.prems have rest: "\<forall>(i, row1) \<in> set rows1. \<forall>key \<in> {''region'', ''zone'', ''woreda''}.
                 \<exists>v. getitem (columns (df1_copy E)) row1 key = Inr v"
    by simp
  show ?case
    unfolding p using scan Cons.IH [OF rest] by simp
qed

lemma working_copy_has_keys:
  assumes wf: "wf_frame df" and ok: "mapping_ok (columns df) m"
    and keys: "{''region'', ''zone'', ''woreda''} \<subseteq> fst ` set m"
  shows "\<forall>(i, row) \<in> set (enumerate 0 (rows (working_copy df m))).
           \<forall>key \<in> {''region'', ''zone'', ''woreda''}.
             \<exists>v. getitem (columns (working_copy df m)) row key = Inr v"
proof (intro ballI, clarify)
  fix i row key
  assume mem: "(i, row) \<in> set (enumerate 0 (rows (working_copy df m)))"
    and key: "key \<in> {''region'', ''zone'', ''woreda''}"
  from mem have i: "i < length (rows df)" and row: "row = rows (working_copy df m) ! i"
    by (simp_all add: in_set_enumerate_eq working_copy_rows_length)
  from key keys obtain a where a: "(key, a) \<in> set m" by force
  from working_copy_char [OF wf ok] have "\<forall>(k, a) \<in> set m. \<forall>r < length (rows df). \<exists>v.
            getitem (columns df) (rows df ! r) a = Inr v \<and>
            getitem (columns (working_copy df m)) (rows (working_copy df m) ! r) k
              = Inr (if a \<noteq> k then normalize_cell v else v)"
    by (rule conjunct2 [THEN conjunct2, THEN conjunct1])
  from this [THEN bspec, OF a] i show "\<exists>v. getitem (columns (working_copy df m)) row key = Inr v"
    unfolding row by auto
qed

lemma match_and_merge_returns:
  assumes a1: "a1 < length s" and a2: "a2 < length s"
    and wf1: "wf_frame (s ! a1)" and wf2: "wf_frame (s ! a2)"
    and ok1: "mapping_ok (columns (s ! a1)) m1" and ok2: "mapping_ok (columns (s ! a2)) m2"
    and keys1: "{''region'', ''zone'', ''woreda''} \<subseteq> fst ` set m1"
    and keys2: "{''region'', ''zone'', ''woreda''} \<subseteq> fst ` set m2"
  shows "\<exists>merged unmatched1 unmatched2.
           fst (match_and_merge_two_datasets rat tsr s a1 a2 m1 m2 rt zt wt)
           = Inr (merged, unmatched1, unmatched2)"
proof -
  let ?E = "matcher_env rat tsr (s ! a1) (s ! a2) m1 m2 rt zt wt"
  have E: "df1_copy ?E = working_copy (s ! a1) m1" "df2_copy ?E = working_copy (s ! a2) m2"
    "set (df2_non_key_cols ?E) \<subseteq> set (columns (df2 ?E))"
    by (auto simp: matcher_env_def)
  from working_copy_char [OF wf1 ok1] working_copy_char [OF wf2 ok2]
  have st: "fst (standardize [s ! a1] 0 m1) = Inr ()" "fst (standardize [s ! a2] 0 m2) = Inr ()"
    by blast+
  have "\<exists>st'. match_rows ?E (enumerate 0 (rows (working_copy (s ! a1) m1))) init_state = Inr st'"
  proof (rule match_rows_returns)
    show "\<forall>(i, row1) \<in> set (enumerate 0 (rows (working_copy (s ! a1) m1))).
            \<forall>key \<in> {''region'', ''zone'', ''woreda''}.
              \<exists>v. getitem (columns (df1_copy ?E)) row1 key = Inr v"
      unfolding E by (rule working_copy_has_keys [OF wf1 ok1 keys1])
    show "\<forall>(j, row2) \<in> set (enumerate 0 (rows (df2_copy ?E))).
            \<forall>key \<in> {''region'', ''zone'', ''woreda''}.
              \<exists>v. getitem (columns (df2_copy ?E)) row2 key = Inr v"
      unfolding E by (rule working_copy_has_keys [OF wf2 ok2 keys2])
    show "set (df2_non_key_cols ?E) \<subseteq> set (columns (df2 ?E))"
      by (rule E)
  qed
  then obtain st' where
    "match_rows ?E (enumerate 0 (rows (working_copy (s ! a1) m1))) init_state = Inr st'"
    by blast
  then show ?thesis
    unfolding match_and_merge_fst [OF a1 a2] st by simp
qed

section \<open>The claims\<close>

subsection \<open>C1: the end-to-end scenario\<close>

lemma scenario_zone_score: "fuzz_ratio ''Zone1'' ''zone 1'' = 800 / 11"
  by code_simp

text \<open>
  C1 (as stated, refuted): with identity mappings and thresholds (80, 80, 80) the
  scenario's two tables are said to merge into one row with both unmatched tables empty.
  The function does not return that.
\<close>

theorem C1_scenario_counterexample:
  "fst (match_and_merge_two_datasets fuzz_ratio fuzz_token_set_ratio
          [scenario_A, scenario_B] 0 1 identity_mapping identity_mapping 80 80 80)
   \<noteq> Inr ([[(''region'', Text ''Addis Ababa''), (''zone'', Text ''Zone1''),
              (''woreda'', Text ''W1''), (''val'', Num 10), (''note'', Text ''ok'')]],
            [],
            \<lparr>columns = [''region'', ''zone'', ''woreda'', ''note''], rows = []\<rparr>)"
  by code_simp

text \<open>
  C1 (amended): under identity mappings no key column is renamed, so none is normalized;
  the zone score of "Zone1" against "zone 1" is 800/11, below 80, and the function returns
  an empty merged table, the one row of A as unmatched and the one row of B as unmatched.
\<close>

theorem C1_scenario_no_match:
  "fst (match_and_merge_two_datasets fuzz_ratio fuzz_token_set_ratio
          [scenario_A, scenario_B] 0 1 identity_mapping identity_mapping 80 80 80)
   = Inr ([],
          [[(''region'', Text ''Addis Ababa''), (''zone'', Text ''Zone1''),
            (''woreda'', Text ''W1''), (''val'', Num 10)]],
          scenario_B)"
  by code_simp

subsection \<open>C2: the normalization of the key columns\<close>

lemma example_B_ok: "wf_frame example_B" "mapping_ok (columns example_B) mapping_B"
  by (simp_all add: wf_frame_def mapping_ok_def example_B_def mapping_B_def)

lemma normalize_cell_text: "v \<noteq> Null \<Longrightarrow> normalize_cell v = Text (lower (strip (to_str v)))"
  by (cases v) simp_all

text \<open>
  C2 (as stated, refuted): the key columns of the working copy are said to be normalized
  also when the mapped column name already equals the canonical name. Under the identity
  mapping the loop leaves the scenario's table A as it is: its region cell is still
  "Addis Ababa", which is not its own normalization "addis ababa".
\<close>

theorem C2_identity_not_normalized_counterexample:
  "standardize [scenario_A] 0 identity_mapping = (Inr (), [scenario_A]) \<and>
   getitem (columns scenario_A) (rows scenario_A ! 0) ''region'' = Inr (Text ''Addis Ababa'') \<and>
   normalize_cell (Text ''Addis Ababa'') = Text ''addis ababa'' \<and>
   Text ''Addis Ababa'' \<noteq> normalize_cell (Text ''Addis Ababa'')"
proof -
  have "standardize [scenario_A] 0 identity_mapping = (Inr (), [scenario_A])"
    by (simp add: identity_mapping_def)
  moreover have "getitem (columns scenario_A) (rows scenario_A ! 0) ''region'' = Inr (Text ''Addis Ababa'')"
    by (simp add: scenario_A_def getitem_def)
  moreover have n: "normalize_cell (Text ''Addis Ababa'') = Text ''addis ababa''"
    by code_simp
  moreover have "Text ''Addis Ababa'' \<noteq> normalize_cell (Text ''Addis Ababa'')"
    unfolding n by simp
  ultimately show ?thesis by (intro conjI)
qed

text \<open>
  C2 (amended): for a table with distinct column names and a complete mapping to
  distinct columns of the table (no canonical name of a renamed key being a column
  already), the normalization loop raises nothing and afterwards every key is a column
  of the working copy. Where the mapped name differs from the canonical name, each
  non-missing value of that column is the text of the original value, stripped and
  lower-cased; where the mapped name equals the canonical name, each value is the
  original value, unchanged. Nothing is said of a missing value in a renamed column.
\<close>

theorem C2_normalized_when_renamed:
  assumes c: "c < length s" and wf: "wf_frame (s ! c)" and ok: "mapping_ok (columns (s ! c)) m"
  shows "fst (standardize s c m) = Inr () \<and>
     (\<forall>(req_col, actual_col) \<in> set m. \<forall>r < length (rows (s ! c)). \<exists>v w.
        getitem (columns (s ! c)) (rows (s ! c) ! r) actual_col = Inr v \<and>
        getitem (columns (snd (standardize s c m) ! c))
                (rows (snd (standardize s c m) ! c) ! r) req_col = Inr w \<and>
        (actual_col = req_col \<longrightarrow> w = v) \<and>
        (actual_col \<noteq> req_col \<and> v \<noteq> Null \<longrightarrow> w = Text (lower (strip (to_str v)))))"
proof -
  have loc: "fst (standardize s c m) = fst (standardize [s ! c] 0 m) \<and>
             snd (standardize s c m) ! c = snd (standardize [s ! c] 0 m) ! 0"
    by (rule standardize_local) (simp_all add: c)
  then have copy: "snd (standardize s c m) ! c = working_copy (s ! c) m"
    by (simp add: working_copy_def)
  note char = working_copy_char [OF wf ok]
  from char have ents: "\<forall>(k, a) \<in> set m. \<forall>r < length (rows (s ! c)). \<exists>v.
            getitem (columns (s ! c)) (rows (s ! c) ! r) a = Inr v \<and>
            getitem (columns (working_copy (s ! c) m)) (rows (working_copy (s ! c) m) ! r) k
              = Inr (if a \<noteq> k then normalize_cell v else v)"
    by (rule conjunct2 [THEN conjunct2, THEN conjunct1])
  have "\<exists>v w. getitem (columns (s ! c)) (rows (s ! c) ! r) a = Inr v \<and>
        getitem (columns (working_copy (s ! c) m)) (rows (working_copy (s ! c) m) ! r) k = Inr w \<and>
        (a = k \<longrightarrow> w = v) \<and>
        (a \<noteq> k \<and> v \<noteq> Null \<longrightarrow> w = Text (lower (strip (to_str v))))"
    if mem: "(k, a) \<in> set m" and r: "r < length (rows (s ! c))" for k a r
  proof -
    from ents [THEN bspec, OF mem] r obtain v where
      v: "getitem (columns (s ! c)) (rows (s ! c) ! r) a = Inr v"
      and w: "getitem (columns (working_copy (s ! c) m)) (rows (working_copy (s ! c) m) ! r) k
              = Inr (if a \<noteq> k then normalize_cell v else v)"
      by auto
    show ?thesis
      by (intro exI [of _ v] exI [of _ "if a \<noteq> k then normalize_cell v else v"] conjI v w)
        (simp_all add: normalize_cell_text)
  qed
  then have "\<forall>(req_col, actual_col) \<in> set m. \<forall>r < length (rows (s ! c)). \<exists>v w.
        getitem (columns (s ! c)) (rows (s ! c) ! r) actual_col = Inr v \<and>
        getitem (columns (working_copy (s ! c) m))
                (rows (working_copy (s ! c) m) ! r) req_col = Inr w \<and>
        (actual_col = req_col \<longrightarrow> w = v) \<and>
        (actual_col \<noteq> req_col \<and> v \<noteq> Null \<longrightarrow> w = Text (lower (strip (to_str v))))"
    by blast
  moreover from char loc have "fst (standardize s c m) = Inr ()"
    by simp
  ultimately show ?thesis
    unfolding copy by (rule conjI [rotated])
qed

theorem C2_normalized_when_renamed_witness:
  "fst (standardize [example_B] 0 mapping_B) = Inr () \<and>
   getitem (columns (snd (standardize [example_B] 0 mapping_B) ! 0))
           (rows (snd (standardize [example_B] 0 mapping_B) ! 0) ! 0) ''zone''
     = Inr (Text ''mekelle'') \<and>
   getitem (columns (snd (standardize [example_B] 0 mapping_B) ! 0))
           (rows (snd (standardize [example_B] 0 mapping_B) ! 0) ! 0) ''region''
     = Inr (Text ''Tigray'')"
proof -
  have c: "0 < length [example_B]" by simp
  have wf: "wf_frame ([example_B] ! 0)" and ok: "mapping_ok (columns ([example_B] ! 0)) mapping_B"
    by (simp_all add: example_B_ok)
  note inst = C2_normalized_when_renamed [OF c wf ok]
  have r: "0 < length (rows ([example_B] ! 0))"
    by (simp add: example_B_def)
  have mem: "(''zone'', ''ZONE'') \<in> set mapping_B" "(''region'', ''region'') \<in> set mapping_B"
    by (simp_all add: mapping_B_def)
  have orig: "getitem (columns ([example_B] ! 0)) (rows ([example_B] ! 0) ! 0) ''ZONE''
                = Inr (Text ''Mekelle'')"
    "getitem (columns ([example_B] ! 0)) (rows ([example_B] ! 0) ! 0) ''region''
                = Inr (Text ''Tigray'')"
    by (simp_all add: example_B_def getitem_def)
  have low: "Text (lower (strip (to_str (Text ''Mekelle'')))) = Text ''mekelle''"
    by code_simp
  have ne: "''ZONE'' \<noteq> ''zone''" by simp
  from inst have ents: "\<forall>(req_col, actual_col) \<in> set mapping_B.
      \<forall>r < length (rows ([example_B] ! 0)). \<exists>v w.
        getitem (columns ([example_B] ! 0)) (rows ([example_B] ! 0) ! r) actual_col = Inr v \<and>
        getitem (columns (snd (standardize [example_B] 0 mapping_B) ! 0))
                (rows (snd (standardize [example_B] 0 mapping_B) ! 0) ! r) req_col = Inr w \<and>
        (actual_col = req_col \<longrightarrow> w = v) \<and>
        (actual_col \<noteq> req_col \<and> v \<noteq> Null \<longrightarrow> w = Text (lower (strip (to_str v))))"
    by (rule conjunct2)
  from ents [THEN bspec, OF mem(1)] have "\<forall>r < length (rows ([example_B] ! 0)). \<exists>v w.
        getitem (columns ([example_B] ! 0)) (rows ([example_B] ! 0) ! r) ''ZONE'' = Inr v \<and>
        getitem (columns (snd (standardize [example_B] 0 mapping_B) ! 0))
                (rows (snd (standardize [example_B] 0 mapping_B) ! 0) ! r) ''zone'' = Inr w \<and>
        (''ZONE'' = ''zone'' \<longrightarrow> w = v) \<and>
        (''ZONE'' \<noteq> ''zone'' \<and> v \<noteq> Null \<longrightarrow> w = Text (lower (strip (to_str v))))"
    by (simp only: case_prod_conv)
  from this [THEN spec, THEN mp, OF r] obtain v w where
    zv: "getitem (columns ([example_B] ! 0)) (rows ([example_B] ! 0) ! 0) ''ZONE'' = Inr v"
    and zw: "getitem (columns (snd (standardize [example_B] 0 mapping_B) ! 0))
                (rows (snd (standardize [example_B] 0 mapping_B) ! 0) ! 0) ''zone'' = Inr w"
    and zi: "''ZONE'' \<noteq> ''zone'' \<and> v \<noteq> Null \<longrightarrow> w = Text (lower (strip (to_str v)))"
    by blast
  from zv orig(1) have veq: "v = Text ''Mekelle''"
    by simp
  from zi ne have "w = Text (lower (strip (to_str (Text ''Mekelle''))))"
    unfolding veq by simp
  with zw low have z: "getitem (columns (snd (standardize [example_B] 0 mapping_B) ! 0))
                (rows (snd (standardize [example_B] 0 mapping_B) ! 0) ! 0) ''zone''
              = Inr (Text ''mekelle'')"
    by simp
  from ents [THEN bspec, OF mem(2)] have "\<forall>r < length (rows ([example_B] ! 0)). \<exists>v w.
        getitem (columns ([example_B] ! 0)) (rows ([example_B] ! 0) ! r) ''region'' = Inr v \<and>
        getitem (columns (snd (standardize [example_B] 0 mapping_B) ! 0))
                (rows (snd (standardize [example_B] 0 mapping_B) ! 0) ! r) ''region'' = Inr w \<and>
        (''region'' = ''region'' \<longrightarrow> w = v) \<and>
        (''region'' \<noteq> ''region'' \<and> v \<noteq> Null \<longrightarrow> w = Text (lower (strip (to_str v))))"
    by (simp only: case_prod_conv)
  from this [THEN spec, THEN mp, OF r] obtain v' w' where
    rv: "getitem (columns ([example_B] ! 0)) (rows ([example_B] ! 0) ! 0) ''region'' = Inr v'"
    and rw: "getitem (columns (snd (standardize [example_B] 0 mapping_B) ! 0))
                (rows (snd (standardize [example_B] 0 mapping_B) ! 0) ! 0) ''region'' = Inr w'"
    and ri: "''region'' = ''region'' \<longrightarrow> w' = v'"
    by blast
  from rv orig(2) have "v' = Text ''Tigray''"
    by simp
  with ri have "w' = Text ''Tigray''" by simp
  with rw have g: "getitem (columns (snd (standardize [example_B] 0 mapping_B) ! 0))
                (rows (snd (standardize [example_B] 0 mapping_B) ! 0) ! 0) ''region''
              = Inr (Text ''Tigray'')"
    by simp
  from inst [THEN conjunct1] z g show ?thesis by (intro conjI)
qed

subsection \<open>C3: the three thresholds, all of them\<close>

lemma scan_df2_accepted:
  "scan_df2 E i row1 rows2 st = Inr (st', True) \<Longrightarrow>
   \<exists>j row2 rs zs ws. (j, row2) \<in> set rows2 \<and> j \<notin> matched_indices_df2 st \<and>
      key_scores (ratio E) (token_set_ratio E) (columns (df1_copy E)) row1
        (columns (df2_copy E)) row2 = Inr (rs, zs, ws) \<and>
      of_int (region_threshold E) \<le> rs \<and> of_int (zone_threshold E) \<le> zs \<and>
      of_int (woreda_threshold E) \<le> ws \<and>
      matched_indices_df2 st' = insert j (matched_indices_df2 st)"
proof (induction rows2)
  case Nil
  then show ?case by simp
next
  case (Cons p rows2)
  obtain index2 row2 where p: "p = (index2, row2)" by (cases p)
  show ?case
  proof (cases "scan_df2 E i row1 (p # rows2) st = scan_df2 E i row1 rows2 st")
    case True
    with Cons.prems have "scan_df2 E i row1 rows2 st = Inr (st', True)" by simp
    from Cons.IH [OF this] obtain j r2 rs zs ws where
      "(j, r2) \<in> set rows2" "j \<notin> matched_indices_df2 st"
      "key_scores (ratio E) (token_set_ratio E) (columns (df1_copy E)) row1
        (columns (df2_copy E)) r2 = Inr (rs, zs, ws)"
      "of_int (region_threshold E) \<le> rs" "of_int (zone_threshold E) \<le> zs"
      "of_int (woreda_threshold E) \<le> ws"
      "matched_indices_df2 st' = insert j (matched_indices_df2 st)"
      by blast
    then show ?thesis
      by (intro exI [of _ j] exI [of _ r2] exI [of _ rs] exI [of _ zs] exI [of _ ws]) simp
  next
    case False
    with Cons.prems p have "index2 \<notin> matched_indices_df2 st \<and>
      (\<exists>rs zs ws. key_scores (ratio E) (token_set_ratio E) (columns (df1_copy E)) row1
        (columns (df2_copy E)) row2 = Inr (rs, zs, ws) \<and>
      of_int (region_threshold E) \<le> rs \<and> of_int (zone_threshold E) \<le> zs \<and>
      of_int (woreda_threshold E) \<le> ws) \<and>
      matched_indices_df2 st' = insert index2 (matched_indices_df2 st)"
      by (auto split: if_splits sum.splits prod.splits)
    then obtain rs zs ws where
      "index2 \<notin> matched_indices_df2 st"
      "key_scores (ratio E) (token_set_ratio E) (columns (df1_copy E)) row1
        (columns (df2_copy E)) row2 = Inr (rs, zs, ws)"
      "of_int (region_threshold E) \<le> rs" "of_int (zone_threshold E) \<le> zs"
      "of_int (woreda_threshold E) \<le> ws"
      "matched_indices_df2 st' = insert index2 (matched_indices_df2 st)"
      by blast
    then show ?thesis
      by (intro exI [of _ index2] exI [of _ row2] exI [of _ rs] exI [of _ zs] exI [of _ ws])
        (simp add: p)
  qed
qed

text \<open>
  C3: take a row of A and a row \<open>j\<close> of B that is unclaimed when the scan for the A row
  starts. If the scan accepts row \<open>j\<close> as the match, then the region score is at least
  the region threshold and the zone score at least the zone threshold and the woreda
  score at least the woreda threshold. Conversely, if all three scores are at least
  their thresholds and the scan comes to row \<open>j\<close> (every earlier row of B is claimed
  already or fails a threshold), then the scan accepts row \<open>j\<close>. So a candidate pair
  with scores exactly at the thresholds matches, and a pair with one score below its
  threshold does not, whatever the other two scores are.
\<close>

theorem C3_and_threshold:
  assumes j: "j < length (rows (df2_copy E))" "j \<notin> matched_indices_df2 st"
    and scores: "key_scores (ratio E) (token_set_ratio E) (columns (df1_copy E)) row1
                   (columns (df2_copy E)) (rows (df2_copy E) ! j) = Inr (rs, zs, ws)"
    and cols: "set (df2_non_key_cols E) \<subseteq> set (columns (df2 E))"
  shows "((\<exists>st'. scan_df2 E index1 row1 (enumerate 0 (rows (df2_copy E))) st = Inr (st', True) \<and>
               j \<in> matched_indices_df2 st')
          \<longrightarrow> of_int (region_threshold E) \<le> rs \<and> of_int (zone_threshold E) \<le> zs \<and>
              of_int (woreda_threshold E) \<le> ws) \<and>
         ((\<forall>k<j. k \<in> matched_indices_df2 st \<or>
             (\<exists>rs' zs' ws'. key_scores (ratio E) (token_set_ratio E) (columns (df1_copy E)) row1
                     (columns (df2_copy E)) (rows (df2_copy E) ! k) = Inr (rs', zs', ws') \<and>
                \<not> (of_int (region_threshold E) \<le> rs' \<and> of_int (zone_threshold E) \<le> zs' \<and>
                   of_int (woreda_threshold E) \<le> ws'))) \<and>
          of_int (region_threshold E) \<le> rs \<and> of_int (zone_threshold E) \<le> zs \<and>
          of_int (woreda_threshold E) \<le> ws
          \<longrightarrow> (\<exists>st'. scan_df2 E index1 row1 (enumerate 0 (rows (df2_copy E))) st = Inr (st', True) \<and>
               j \<in> matched_indices_df2 st'))"
proof (intro conjI impI)
  assume "\<exists>st'. scan_df2 E index1 row1 (enumerate 0 (rows (df2_copy E))) st = Inr (st', True) \<and>
               j \<in> matched_indices_df2 st'"
  then obtain st' where
    scan: "scan_df2 E index1 row1 (enumerate 0 (rows (df2_copy E))) st = Inr (st', True)"
    and claimed: "j \<in> matched_indices_df2 st'"
    by blast
  from scan_df2_accepted [OF scan] obtain j' row2 rs' zs' ws' where
    mem: "(j', row2) \<in> set (enumerate 0 (rows (df2_copy E)))"
    and sc: "key_scores (ratio E) (token_set_ratio E) (columns (df1_copy E)) row1
        (columns (df2_copy E)) row2 = Inr (rs', zs', ws')"
    and thr: "of_int (region_threshold E) \<le> rs'" "of_int (zone_threshold E) \<le> zs'"
      "of_int (woreda_threshold E) \<le> ws'"
    and ins: "matched_indices_df2 st' = insert j' (matched_indices_df2 st)"
    by blast
  from claimed ins j(2) have "j' = j" by auto
  with mem have "row2 = rows (df2_copy E) ! j" by (simp add: in_set_enumerate_eq)
  with sc scores have "rs' = rs" "zs' = zs" "ws' = ws" by simp_all
  with thr show "of_int (region_threshold E) \<le> rs" "of_int (zone_threshold E) \<le> zs"
    "of_int (woreda_threshold E) \<le> ws"
    by simp_all
next
  assume asm: "(\<forall>k<j. k \<in> matched_indices_df2 st \<or>
             (\<exists>rs' zs' ws'. key_scores (ratio E) (token_set_ratio E) (columns (df1_copy E)) row1
                     (columns (df2_copy E)) (rows (df2_copy E) ! k) = Inr (rs', zs', ws') \<and>
                \<not> (of_int (region_threshold E) \<le> rs' \<and> of_int (zone_threshold E) \<le> zs' \<and>
                   of_int (woreda_threshold E) \<le> ws'))) \<and>
          of_int (region_threshold E) \<le> rs \<and> of_int (zone_threshold E) \<le> zs \<and>
          of_int (woreda_threshold E) \<le> ws"
  then have reached: "\<forall>k<j. k \<in> matched_indices_df2 st \<or>
             (\<exists>rs' zs' ws'. key_scores (ratio E) (token_set_ratio E) (columns (df1_copy E)) row1
                     (columns (df2_copy E)) (rows (df2_copy E) ! k) = Inr (rs', zs', ws') \<and>
                \<not> (of_int (region_threshold E) \<le> rs' \<and> of_int (zone_threshold E) \<le> zs' \<and>
                   of_int (woreda_threshold E) \<le> ws'))"
    and thr: "of_int (region_threshold E) \<le> rs \<and> of_int (zone_threshold E) \<le> zs \<and>
          of_int (woreda_threshold E) \<le> ws"
    by (rule conjunct1, rule conjunct2)
  from add_cols_Inr [OF cols] obtain combined_row where
    "add_cols (df2 E) j (df2_non_key_cols E) (to_dict (df1 E) index1) = Inr combined_row"
    by blast
  with j(2) scores thr show "\<exists>st'. scan_df2 E index1 row1 (enumerate 0 (rows (df2_copy E))) st = Inr (st', True) \<and>
               j \<in> matched_indices_df2 st'"
    unfolding scan_df2_first [OF reached j(1)] by simp
qed

theorem C3_and_threshold_witness:
  "\<exists>st'. scan_df2 boundary_env 0 [Text ''ab'', Text ''bole'', Text ''w1'']
            (enumerate 0 (rows (df2_copy boundary_env))) init_state = Inr (st', True) \<and>
         0 \<in> matched_indices_df2 st'"
proof -
  have j: "0 < length (rows (df2_copy boundary_env))"
    by code_simp
  have unclaimed: "0 \<notin> matched_indices_df2 init_state"
    by (simp add: init_state_def)
  have reached: "\<forall>k<0. k \<in> matched_indices_df2 init_state \<or>
      (\<exists>rs' zs' ws'. key_scores (ratio boundary_env) (token_set_ratio boundary_env)
                     (columns (df1_copy boundary_env)) [Text ''ab'', Text ''bole'', Text ''w1'']
                     (columns (df2_copy boundary_env)) (rows (df2_copy boundary_env) ! k)
                   = Inr (rs', zs', ws') \<and>
         \<not> (of_int (region_threshold boundary_env) \<le> rs' \<and>
            of_int (zone_threshold boundary_env) \<le> zs' \<and>
            of_int (woreda_threshold boundary_env) \<le> ws'))"
    by simp
  have cols: "set (df2_non_key_cols boundary_env) \<subseteq> set (columns (df2 boundary_env))"
    by (simp add: boundary_env_def matcher_env_def)
  have thr: "of_int (region_threshold boundary_env) \<le> (50 :: rat) \<and>
        of_int (zone_threshold boundary_env) \<le> (100 :: rat) \<and>
        of_int (woreda_threshold boundary_env) \<le> (100 :: rat)"
    by (simp add: boundary_env_fields)
  from C3_and_threshold [OF j unclaimed boundary_scores cols, of 0, THEN conjunct2] reached thr
  show ?thesis by blast
qed

subsection \<open>C4: first fit\<close>

text \<open>
  C4: if row \<open>j\<close> of B is unclaimed and meets all three thresholds, and every earlier row
  of B is claimed or fails a threshold, then the scan for the A row binds it to row \<open>j\<close>:
  the combined row of the pair is appended, \<open>j\<close> is claimed and the scan ends with
  \<^verbatim>\<open>found_match\<close>. The rows after \<open>j\<close> play no part, whatever their scores.
\<close>

theorem C4_first_fit:
  assumes j: "j < length (rows (df2_copy E))" "j \<notin> matched_indices_df2 st"
    and scores: "key_scores (ratio E) (token_set_ratio E) (columns (df1_copy E)) row1
                   (columns (df2_copy E)) (rows (df2_copy E) ! j) = Inr (rs, zs, ws)"
    and qualifies: "of_int (region_threshold E) \<le> rs" "of_int (zone_threshold E) \<le> zs"
                   "of_int (woreda_threshold E) \<le> ws"
    and earlier: "\<forall>k<j. k \<in> matched_indices_df2 st \<or>
      (\<exists>rs' zs' ws'. key_scores (ratio E) (token_set_ratio E) (columns (df1_copy E)) row1
                     (columns (df2_copy E)) (rows (df2_copy E) ! k) = Inr (rs', zs', ws') \<and>
         \<not> (of_int (region_threshold E) \<le> rs' \<and> of_int (zone_threshold E) \<le> zs' \<and>
            of_int (woreda_threshold E) \<le> ws'))"
    and combined: "add_cols (df2 E) j (df2_non_key_cols E) (to_dict (df1 E) index1) = Inr combined_row"
  shows "scan_df2 E index1 row1 (enumerate 0 (rows (df2_copy E))) st =
         Inr (st\<lparr>matched_rows := matched_rows st @ [combined_row],
                 matched_indices_df2 := insert j (matched_indices_df2 st)\<rparr>, True)"
  unfolding scan_df2_first [OF earlier j(1)]
  using j(2) scores qualifies combined by simp

theorem C4_first_fit_witness:
  "scan_df2 first_fit_env 0 [Text ''addis ababa'', Text ''bole'', Text ''w1'']
     (enumerate 0 (rows (df2_copy first_fit_env))) init_state =
   Inr (init_state\<lparr>matched_rows := matched_rows init_state @
           [[(''region'', Text ''addis ababa''), (''zone'', Text ''bole''),
             (''woreda'', Text ''w1''), (''note'', Text ''r1'')]],
         matched_indices_df2 := insert 1 (matched_indices_df2 init_state)\<rparr>, True)"
proof -
  let ?row1 = "[Text ''addis ababa'', Text ''bole'', Text ''w1'']"
  have j: "1 < length (rows (df2_copy first_fit_env))"
    by code_simp
  have unclaimed: "1 \<notin> matched_indices_df2 init_state"
    by (simp add: init_state_def)
  have thr: "of_int (region_threshold first_fit_env) \<le> (1000 / 11 :: rat)"
    "of_int (zone_threshold first_fit_env) \<le> (100 :: rat)"
    "of_int (woreda_threshold first_fit_env) \<le> (100 :: rat)"
    by (simp_all add: first_fit_env_fields)
  have earlier: "\<forall>k<1. k \<in> matched_indices_df2 init_state \<or>
      (\<exists>rs' zs' ws'. key_scores (ratio first_fit_env) (token_set_ratio first_fit_env)
                     (columns (df1_copy first_fit_env)) ?row1
                     (columns (df2_copy first_fit_env)) (rows (df2_copy first_fit_env) ! k)
                   = Inr (rs', zs', ws') \<and>
         \<not> (of_int (region_threshold first_fit_env) \<le> rs' \<and>
            of_int (zone_threshold first_fit_env) \<le> zs' \<and>
            of_int (woreda_threshold first_fit_env) \<le> ws'))"
  proof (intro allI impI)
    fix k :: nat
    assume "k < 1"
    then have k: "k = 0" by simp
    have "\<not> (of_int (region_threshold first_fit_env) \<le> (400 / 17 :: rat) \<and>
            of_int (zone_threshold first_fit_env) \<le> (100 :: rat) \<and>
            of_int (woreda_threshold first_fit_env) \<le> (100 :: rat))"
      by (simp add: first_fit_env_fields)
    with first_fit_scores(1) show "k \<in> matched_indices_df2 init_state \<or>
      (\<exists>rs' zs' ws'. key_scores (ratio first_fit_env) (token_set_ratio first_fit_env)
                     (columns (df1_copy first_fit_env)) ?row1
                     (columns (df2_copy first_fit_env)) (rows (df2_copy first_fit_env) ! k)
                   = Inr (rs', zs', ws') \<and>
         \<not> (of_int (region_threshold first_fit_env) \<le> rs' \<and>
            of_int (zone_threshold first_fit_env) \<le> zs' \<and>
            of_int (woreda_threshold first_fit_env) \<le> ws'))"
      unfolding k by blast
  qed
  have combined: "add_cols (df2 first_fit_env) 1 (df2_non_key_cols first_fit_env)
      (to_dict (df1 first_fit_env) 0) =
    Inr [(''region'', Text ''addis ababa''), (''zone'', Text ''bole''),
         (''woreda'', Text ''w1''), (''note'', Text ''r1'')]"
    by code_simp
  show ?thesis
    by (rule C4_first_fit [OF j unclaimed first_fit_scores(2) thr earlier combined])
qed

subsection \<open>C5: the partition of the rows\<close>

text \<open>
  C5: whenever the function returns, there are a list of pairs (A-row index, B-row index)
  and a list of unmatched A-row indices such that: the merged rows are the combined rows
  of the pairs, in order, and the unmatched-A rows are the original A rows at the
  unmatched indices; every A-row index is a first component of a pair or an unmatched
  index, and only once in all; the unmatched-B table holds exactly the B rows whose index
  no pair claims; no A row and no B row occurs in two pairs (the pairs are a partial
  injective function); and the number of merged rows is the number of pairs and of
  claimed B rows.
\<close>

theorem C5_partition:
  assumes res: "fst (match_and_merge_two_datasets rat tsr s a1 a2 m1 m2 rt zt wt)
                  = Inr (merged, unmatched1, unmatched2)"
    and a1: "a1 < length s" and a2: "a2 < length s"
  shows "\<exists>pairs un.
      map (\<lambda>(i, j). add_cols (s ! a2) j
             (filter (\<lambda>col. col \<notin> snd ` set m2) (columns (s ! a2))) (to_dict (s ! a1) i)) pairs
        = map Inr merged \<and>
      unmatched1 = map (to_dict (s ! a1)) un \<and>
      unmatched2 = \<lparr>columns = columns (s ! a2),
                    rows = map (\<lambda>j. rows (s ! a2) ! j)
                             (filter (\<lambda>j. j \<notin> snd ` set pairs) [0..<length (rows (s ! a2))])\<rparr> \<and>
      distinct (map fst pairs @ un) \<and>
      set (map fst pairs) \<union> set un = {..<length (rows (s ! a1))} \<and>
      distinct (map snd pairs) \<and>
      snd ` set pairs \<subseteq> {..<length (rows (s ! a2))} \<and>
      length merged = length pairs \<and>
      length merged = card (snd ` set pairs)"
proof -
  let ?E = "matcher_env rat tsr (s ! a1) (s ! a2) m1 m2 rt zt wt"
  from match_and_merge_Inr [OF res a1 a2] obtain st where
    mr: "match_rows ?E (enumerate 0 (rows (working_copy (s ! a1) m1))) init_state = Inr st"
    and out: "merged = matched_rows st" "unmatched1 = unmatched_df1_rows st"
      "unmatched2 = \<lparr>columns = columns (s ! a2),
            rows = map (\<lambda>i. rows (s ! a2) ! i)
                     (filter (\<lambda>i. i \<notin> matched_indices_df2 st) [0..<length (rows (s ! a2))])\<rparr>"
    by blast
  have "pairing_inv ?E 0 init_state [] []"
    by (simp add: pairing_inv_def init_state_def)
  from match_rows_inv [OF mr this] obtain pairs un where
    inv: "pairing_inv ?E (length (rows (s ! a1))) st pairs un"
    by (auto simp: working_copy_rows_length)
  have E: "df1 ?E = s ! a1" "df2 ?E = s ! a2"
    "df2_non_key_cols ?E = filter (\<lambda>col. col \<notin> snd ` set m2) (columns (s ! a2))"
    "length (rows (df2_copy ?E)) = length (rows (s ! a2))"
    by (simp_all add: matcher_env_def working_copy_rows_length)
  from inv have len: "length pairs = length merged"
    unfolding pairing_inv_def out using length_map by metis
  from inv have "card (snd ` set pairs) = length pairs"
    unfolding pairing_inv_def using distinct_card [of "map snd pairs"] by simp
  with inv len out show ?thesis
    unfolding pairing_inv_def E by (intro exI [of _ pairs] exI [of _ un]) simp
qed

theorem C5_partition_witness:
  "\<exists>pairs un.
      map (\<lambda>(i, j). add_cols example_B j
             (filter (\<lambda>col. col \<notin> snd ` set mapping_B) (columns example_B)) (to_dict example_A i)) pairs
        = map Inr [[(''Region'', Text '' Addis Ababa''), (''Zone'', Text ''Zone1''),
                    (''Woreda'', Text ''W1''), (''val'', Num 5), (''note'', Text ''ok'')]] \<and>
      distinct (map fst pairs @ un) \<and>
      set (map fst pairs) \<union> set un = {..<2} \<and>
      distinct (map snd pairs) \<and>
      snd ` set pairs \<subseteq> {..<2} \<and>
      length pairs = 1"
proof -
  have len: "(0::nat) < length [example_A, example_B]" "(1::nat) < length [example_A, example_B]"
    by simp_all
  have rows: "length (rows example_A) = 2" "length (rows example_B) = 2"
    by (simp_all add: example_A_def example_B_def)
  from C5_partition [OF example_run len] show ?thesis
    by (simp add: rows) metis
qed

subsection \<open>C6: the columns of a merged row\<close>

text \<open>
  C6 (as stated, refuted): a merged row is said to carry every column of its A row with
  the original value. In the run below both tables have a non-key column \<open>val\<close>; the
  first row of A has \<open>val = 10\<close> and the merged row has \<open>val = 5\<close>, the value of its B row.
\<close>

theorem C6_original_values_counterexample:
  "fst (match_and_merge_two_datasets fuzz_ratio fuzz_token_set_ratio
          [example_A, example_B] 0 1 mapping_A mapping_B 80 80 80)
   = Inr ([[(''Region'', Text '' Addis Ababa''), (''Zone'', Text ''Zone1''),
            (''Woreda'', Text ''W1''), (''val'', Num 5), (''note'', Text ''ok'')]],
          [[(''Region'', Text ''Oromia''), (''Zone'', Text ''Bale''),
            (''Woreda'', Text ''Goba''), (''val'', Num 20)]],
          \<lparr>columns = [''region'', ''ZONE'', ''woreda'', ''val'', ''note''],
           rows = [[Text ''Tigray'', Text ''Mekelle'', Text ''Adi'', Num 7, Text ''no'']]\<rparr>) \<and>
   to_dict example_A 0 = [(''Region'', Text '' Addis Ababa''), (''Zone'', Text ''Zone1''),
                          (''Woreda'', Text ''W1''), (''val'', Num 10)] \<and>
   to_dict example_A 1 = [(''Region'', Text ''Oromia''), (''Zone'', Text ''Bale''),
                          (''Woreda'', Text ''Goba''), (''val'', Num 20)] \<and>
   map_of [(''Region'', Text '' Addis Ababa''), (''Zone'', Text ''Zone1''),
           (''Woreda'', Text ''W1''), (''val'', Num 5), (''note'', Text ''ok'')] ''val''
     \<noteq> map_of (to_dict example_A 0) ''val''"
proof -
  have dicts: "to_dict example_A 0 = [(''Region'', Text '' Addis Ababa''), (''Zone'', Text ''Zone1''),
                          (''Woreda'', Text ''W1''), (''val'', Num 10)]"
    "to_dict example_A 1 = [(''Region'', Text ''Oromia''), (''Zone'', Text ''Bale''),
                          (''Woreda'', Text ''Goba''), (''val'', Num 20)]"
    by (simp_all add: to_dict_def example_A_def)
  have "map_of [(''Region'', Text '' Addis Ababa''), (''Zone'', Text ''Zone1''),
           (''Woreda'', Text ''W1''), (''val'', Num 5), (''note'', Text ''ok'')] ''val''
     \<noteq> map_of (to_dict example_A 0) ''val''"
    unfolding dicts by simp
  with example_run dicts show ?thesis by (intro conjI)
qed

text \<open>
  C6 (amended): every merged row is the combined row of a pair (A row, B row). Its
  columns are all the columns of the A row together with exactly the columns of B that
  are not among B's mapped key columns. A column of B that is not a mapped key column
  carries the B row's value. Every other column, so also one that is named like a mapped
  key column of B, carries the A row's original value: the mapped key columns of B
  contribute neither a column nor a value.
\<close>

theorem C6_merged_columns:
  assumes res: "fst (match_and_merge_two_datasets rat tsr s a1 a2 m1 m2 rt zt wt)
                  = Inr (merged, unmatched1, unmatched2)"
    and a1: "a1 < length s" and a2: "a2 < length s"
  shows "\<exists>pairs. length pairs = length merged \<and>
      (\<forall>k<length merged.
         fst (pairs ! k) < length (rows (s ! a1)) \<and> snd (pairs ! k) < length (rows (s ! a2)) \<and>
         add_cols (s ! a2) (snd (pairs ! k))
           (filter (\<lambda>col. col \<notin> snd ` set m2) (columns (s ! a2)))
           (to_dict (s ! a1) (fst (pairs ! k))) = Inr (merged ! k) \<and>
         fst ` set (merged ! k) =
           fst ` set (to_dict (s ! a1) (fst (pairs ! k))) \<union>
           {col \<in> set (columns (s ! a2)). col \<notin> snd ` set m2} \<and>
         (\<forall>col. (col \<in> set (columns (s ! a2)) \<and> col \<notin> snd ` set m2 \<longrightarrow>
                  (\<exists>v. map_of (merged ! k) col = Some v \<and>
                       getitem (columns (s ! a2)) (rows (s ! a2) ! snd (pairs ! k)) col = Inr v)) \<and>
                (\<not> (col \<in> set (columns (s ! a2)) \<and> col \<notin> snd ` set m2) \<longrightarrow>
                  map_of (merged ! k) col = map_of (to_dict (s ! a1) (fst (pairs ! k))) col)))"
proof -
  from merged_rows_pairs [OF res a1 a2] obtain pairs where
    len: "length pairs = length merged"
    and rows: "\<forall>k<length merged.
         fst (pairs ! k) < length (rows (s ! a1)) \<and> snd (pairs ! k) < length (rows (s ! a2)) \<and>
         add_cols (s ! a2) (snd (pairs ! k))
           (filter (\<lambda>col. col \<notin> snd ` set m2) (columns (s ! a2)))
           (to_dict (s ! a1) (fst (pairs ! k))) = Inr (merged ! k)"
    by blast
  have "fst ` set (merged ! k) =
           fst ` set (to_dict (s ! a1) (fst (pairs ! k))) \<union>
           {col \<in> set (columns (s ! a2)). col \<notin> snd ` set m2} \<and>
         (\<forall>col. (col \<in> set (columns (s ! a2)) \<and> col \<notin> snd ` set m2 \<longrightarrow>
                  (\<exists>v. map_of (merged ! k) col = Some v \<and>
                       getitem (columns (s ! a2)) (rows (s ! a2) ! snd (pairs ! k)) col = Inr v)) \<and>
                (\<not> (col \<in> set (columns (s ! a2)) \<and> col \<notin> snd ` set m2) \<longrightarrow>
                  map_of (merged ! k) col = map_of (to_dict (s ! a1) (fst (pairs ! k))) col))"
    if "k < length merged" for k
  proof -
    from rows that have ac: "add_cols (s ! a2) (snd (pairs ! k))
           (filter (\<lambda>col. col \<notin> snd ` set m2) (columns (s ! a2)))
           (to_dict (s ! a1) (fst (pairs ! k))) = Inr (merged ! k)"
      by blast
    from add_cols_keys [OF ac] have keys: "fst ` set (merged ! k) =
           fst ` set (to_dict (s ! a1) (fst (pairs ! k))) \<union>
           {col \<in> set (columns (s ! a2)). col \<notin> snd ` set m2}"
      by auto
    from add_cols_map_of [OF ac] have "\<forall>col. (col \<in> set (columns (s ! a2)) \<and> col \<notin> snd ` set m2 \<longrightarrow>
                  (\<exists>v. map_of (merged ! k) col = Some v \<and>
                       getitem (columns (s ! a2)) (rows (s ! a2) ! snd (pairs ! k)) col = Inr v)) \<and>
                (\<not> (col \<in> set (columns (s ! a2)) \<and> col \<notin> snd ` set m2) \<longrightarrow>
                  map_of (merged ! k) col = map_of (to_dict (s ! a1) (fst (pairs ! k))) col)"
      by simp
    with keys show ?thesis by blast
  qed
  with len rows show ?thesis by blast
qed

theorem C6_merged_columns_witness:
  "\<exists>pairs. length pairs = length [[(''Region'', Text '' Addis Ababa''), (''Zone'', Text ''Zone1''),
            (''Woreda'', Text ''W1''), (''val'', Num 5), (''note'', Text ''ok'')]] \<and>
      (\<forall>k<length [[(''Region'', Text '' Addis Ababa''), (''Zone'', Text ''Zone1''),
            (''Woreda'', Text ''W1''), (''val'', Num 5), (''note'', Text ''ok'')]].
         fst (pairs ! k) < length (rows ([example_A, example_B] ! 0)) \<and> snd (pairs ! k) < length (rows ([example_A, example_B] ! 1)) \<and>
         add_cols ([example_A, example_B] ! 1) (snd (pairs ! k))
           (filter (\<lambda>col. col \<notin> snd ` set mapping_B) (columns ([example_A, example_B] ! 1)))
           (to_dict ([example_A, example_B] ! 0) (fst (pairs ! k))) = Inr ([[(''Region'', Text '' Addis Ababa''), (''Zone'', Text ''Zone1''),
            (''Woreda'', Text ''W1''), (''val'', Num 5), (''note'', Text ''ok'')]] ! k) \<and>
         fst ` set ([[(''Region'', Text '' Addis Ababa''), (''Zone'', Text ''Zone1''),
            (''Woreda'', Text ''W1''), (''val'', Num 5), (''note'', Text ''ok'')]] ! k) =
           fst ` set (to_dict ([example_A, example_B] ! 0) (fst (pairs ! k))) \<union>
           {col \<in> set (columns ([example_A, example_B] ! 1)). col \<notin> snd ` set mapping_B} \<and>
         (\<forall>col. (col \<in> set (columns ([example_A, example_B] ! 1)) \<and> col \<notin> snd ` set mapping_B \<longrightarrow>
                  (\<exists>v. map_of ([[(''Region'', Text '' Addis Ababa''), (''Zone'', Text ''Zone1''),
            (''Woreda'', Text ''W1''), (''val'', Num 5), (''note'', Text ''ok'')]] ! k) col = Some v \<and>
                       getitem (columns ([example_A, example_B] ! 1)) (rows ([example_A, example_B] ! 1) ! snd (pairs ! k)) col = Inr v)) \<and>
                (\<not> (col \<in> set (columns ([example_A, example_B] ! 1)) \<and> col \<notin> snd ` set mapping_B) \<longrightarrow>
                  map_of ([[(''Region'', Text '' Addis Ababa''), (''Zone'', Text ''Zone1''),
            (''Woreda'', Text ''W1''), (''val'', Num 5), (''note'', Text ''ok'')]] ! k) col = map_of (to_dict ([example_A, example_B] ! 0) (fst (pairs ! k))) col)))"
proof -
  have len: "(0::nat) < length [example_A, example_B]" "(1::nat) < length [example_A, example_B]"
    by simp_all
  show ?thesis
    by (rule C6_merged_columns [OF example_run len])
qed

subsection \<open>C7: the column resolver\<close>

lemma region_scores:
  "fuzz_ratio ''region'' ''region'' = 100" "fuzz_ratio ''region'' ''area'' = 40"
  by code_simp+

lemma map_columns_region_over_area:
  "map_columns fuzz_ratio \<lparr>columns = [''area'', ''region''], rows = rs\<rparr> [''region'']
   = Inr ([(''region'', ''region'')], [])"
proof -
  have "map_columns fuzz_ratio \<lparr>columns = [''area'', ''region''], rows = rs\<rparr> [''region'']
      = map_columns fuzz_ratio \<lparr>columns = [''area'', ''region''], rows = []\<rparr> [''region'']"
    by (simp add: map_columns_def)
  also have "\<dots> = Inr ([(''region'', ''region'')], [])"
    by code_simp
  finally show ?thesis .
qed

text \<open>
  C7: for every table and every required key, \<^verbatim>\<open>map_columns\<close> returns a mapping and a
  list of missing keys such that: if the table has no columns, the key is missing and has
  no mapping entry; otherwise there is a column position \<open>k\<close> whose stripped, lower-cased
  name has the highest score against the key, no earlier column reaching that score, and
  the key is mapped to the original name of column \<open>k\<close> (and is not missing) if that
  score is at least 85, and is missing with no mapping entry if it is below 85. In
  particular "region" scores 100 against "region" and 40 against "area", and in a table
  with the columns "area", "region" the key is resolved to "region".
\<close>

theorem C7_column_resolver:
  assumes req: "req_col \<in> set required_cols"
  shows "(\<exists>col_mapping missing_cols.
       map_columns sc df required_cols = Inr (col_mapping, missing_cols) \<and>
       ((columns df = [] \<and> map_of col_mapping req_col = None \<and> req_col \<in> set missing_cols) \<or>
        (\<exists>k. is_first_max sc req_col (map (\<lambda>col. lower (strip col)) (columns df)) k \<and>
           (if 85 \<le> sc req_col (lower (strip (columns df ! k)))
            then map_of col_mapping req_col = Some (columns df ! k) \<and> req_col \<notin> set missing_cols
            else map_of col_mapping req_col = None \<and> req_col \<in> set missing_cols)))) \<and>
     fuzz_ratio ''region'' ''region'' = 100 \<and> fuzz_ratio ''region'' ''area'' = 40 \<and>
     map_columns fuzz_ratio \<lparr>columns = [''area'', ''region''], rows = rs\<rparr> [''region'']
       = Inr ([(''region'', ''region'')], [])"
proof -
  let ?N = "map (\<lambda>col. lower (strip col)) (columns df)"
  let ?R = "\<lambda>req. (case extractOne sc req ?N of
                          None \<Rightarrow> None
                        | Some (choice, score, i) \<Rightarrow>
                            if 85 \<le> score then Some (columns df ! i) else None)"
  from map_columns_loop_char [of sc "columns df" ?N required_cols "[]" "[]"]
  obtain mp ms where
    run: "map_columns_loop sc (columns df) ?N required_cols ([], []) = Inr (mp, ms)"
    and mp: "\<forall>q. map_of mp q = (if q \<in> set required_cols \<and> ?R q \<noteq> None then ?R q else map_of [] q)"
    and ms: "set ms = set [] \<union> {q \<in> set required_cols. ?R q = None}"
    by blast
  from mp req have mp_req: "map_of mp req_col = ?R req_col"
    by (cases "?R req_col") simp_all
  from ms req have ms_req: "req_col \<in> set ms \<longleftrightarrow> ?R req_col = None"
    by simp
  have res: "map_columns sc df required_cols = Inr (mp, ms)"
    using run by (simp add: map_columns_def)
  have "(columns df = [] \<and> map_of mp req_col = None \<and> req_col \<in> set ms) \<or>
        (\<exists>k. is_first_max sc req_col ?N k \<and>
           (if 85 \<le> sc req_col (lower (strip (columns df ! k)))
            then map_of mp req_col = Some (columns df ! k) \<and> req_col \<notin> set ms
            else map_of mp req_col = None \<and> req_col \<in> set ms))"
  proof (cases "columns df = []")
    case True
    then have "?R req_col = None" by (simp add: extractOne_Nil)
    with True mp_req ms_req show ?thesis by simp
  next
    case False
    then have "?N \<noteq> []" by simp
    with extractOne_cases [of ?N sc req_col] obtain k where
      ex: "extractOne sc req_col ?N = Some (?N ! k, sc req_col (?N ! k), k)"
      and fm: "is_first_max sc req_col ?N k"
      by blast
    from fm have "k < length (columns df)" by (simp add: is_first_max_def)
    then have nk: "?N ! k = lower (strip (columns df ! k))" by simp
    have "if 85 \<le> sc req_col (lower (strip (columns df ! k)))
            then map_of mp req_col = Some (columns df ! k) \<and> req_col \<notin> set ms
            else map_of mp req_col = None \<and> req_col \<in> set ms"
      unfolding mp_req ms_req ex nk [symmetric] by simp
    with fm show ?thesis by blast
  qed
  with res region_scores map_columns_region_over_area [of rs] show ?thesis
    by (intro conjI exI [of _ mp] exI [of _ ms])
qed

theorem C7_column_resolver_witness:
  "(\<exists>col_mapping missing_cols.
       map_columns fuzz_ratio resolver_table [''region'', ''zone'', ''woreda'']
         = Inr (col_mapping, missing_cols) \<and>
       ((columns resolver_table = [] \<and> map_of col_mapping ''region'' = None \<and>
         ''region'' \<in> set missing_cols) \<or>
        (\<exists>k. is_first_max fuzz_ratio ''region''
                (map (\<lambda>col. lower (strip col)) (columns resolver_table)) k \<and>
           (if 85 \<le> fuzz_ratio ''region'' (lower (strip (columns resolver_table ! k)))
            then map_of col_mapping ''region'' = Some (columns resolver_table ! k) \<and>
                 ''region'' \<notin> set missing_cols
            else map_of col_mapping ''region'' = None \<and> ''region'' \<in> set missing_cols))))"
proof -
  have "''region'' \<in> set [''region'', ''zone'', ''woreda'']"
    by simp
  from C7_column_resolver [OF this, of fuzz_ratio resolver_table]
  show ?thesis by (rule conjunct1)
qed

subsection \<open>C8: determinism\<close>

text \<open>
  C8: a second invocation with the same arguments, run in the store the first one left
  behind, returns the same result (merged rows, unmatched rows of both tables, or the
  same error); and so does an invocation in any other store, at any addresses, that hold
  the same two tables. The result depends on nothing but the contents of the two tables,
  the mappings, the thresholds and the scorers.
\<close>

theorem C8_deterministic:
  assumes a1: "a1 < length s" and a2: "a2 < length s"
  shows "fst (match_and_merge_two_datasets rat tsr
                (snd (match_and_merge_two_datasets rat tsr s a1 a2 m1 m2 rt zt wt))
                a1 a2 m1 m2 rt zt wt)
         = fst (match_and_merge_two_datasets rat tsr s a1 a2 m1 m2 rt zt wt) \<and>
         (\<forall>t b1 b2. b1 < length t \<and> b2 < length t \<and> t ! b1 = s ! a1 \<and> t ! b2 = s ! a2 \<longrightarrow>
            fst (match_and_merge_two_datasets rat tsr t b1 b2 m1 m2 rt zt wt)
            = fst (match_and_merge_two_datasets rat tsr s a1 a2 m1 m2 rt zt wt))"
proof -
  let ?s' = "snd (match_and_merge_two_datasets rat tsr s a1 a2 m1 m2 rt zt wt)"
  have other: "fst (match_and_merge_two_datasets rat tsr t b1 b2 m1 m2 rt zt wt)
            = fst (match_and_merge_two_datasets rat tsr s a1 a2 m1 m2 rt zt wt)"
    if "b1 < length t" "b2 < length t" "t ! b1 = s ! a1" "t ! b2 = s ! a2" for t b1 b2
    unfolding match_and_merge_fst [OF that(1,2)] match_and_merge_fst [OF a1 a2] that(3,4) ..
  have "a1 < length ?s'" "a2 < length ?s'" "?s' ! a1 = s ! a1" "?s' ! a2 = s ! a2"
    using a1 a2 by (simp_all add: match_and_merge_length match_and_merge_frame)
  then have "fst (match_and_merge_two_datasets rat tsr ?s' a1 a2 m1 m2 rt zt wt)
         = fst (match_and_merge_two_datasets rat tsr s a1 a2 m1 m2 rt zt wt)"
    by (rule other)
  with other show ?thesis by blast
qed

theorem C8_deterministic_witness:
  "fst (match_and_merge_two_datasets fuzz_ratio fuzz_token_set_ratio
          (snd (match_and_merge_two_datasets fuzz_ratio fuzz_token_set_ratio
                  [example_A, example_B] 0 1 mapping_A mapping_B 80 80 80))
          0 1 mapping_A mapping_B 80 80 80)
   = fst (match_and_merge_two_datasets fuzz_ratio fuzz_token_set_ratio
            [example_A, example_B] 0 1 mapping_A mapping_B 80 80 80) \<and>
   fst (match_and_merge_two_datasets fuzz_ratio fuzz_token_set_ratio
          [example_B, example_A] 1 0 mapping_A mapping_B 80 80 80)
   = fst (match_and_merge_two_datasets fuzz_ratio fuzz_token_set_ratio
            [example_A, example_B] 0 1 mapping_A mapping_B 80 80 80)"
proof -
  have len: "(0::nat) < length [example_A, example_B]" "(1::nat) < length [example_A, example_B]"
    by simp_all
  note det = C8_deterministic [OF len, of fuzz_ratio fuzz_token_set_ratio
      mapping_A mapping_B 80 80 80]
  from det have first: "fst (match_and_merge_two_datasets fuzz_ratio fuzz_token_set_ratio
          (snd (match_and_merge_two_datasets fuzz_ratio fuzz_token_set_ratio
                  [example_A, example_B] 0 1 mapping_A mapping_B 80 80 80))
          0 1 mapping_A mapping_B 80 80 80)
   = fst (match_and_merge_two_datasets fuzz_ratio fuzz_token_set_ratio
            [example_A, example_B] 0 1 mapping_A mapping_B 80 80 80)"
    by (rule conjunct1)
  from det have "(1::nat) < length [example_B, example_A] \<and> (0::nat) < length [example_B, example_A] \<and>
      [example_B, example_A] ! 1 = [example_A, example_B] ! 0 \<and>
      [example_B, example_A] ! 0 = [example_A, example_B] ! 1 \<longrightarrow>
      fst (match_and_merge_two_datasets fuzz_ratio fuzz_token_set_ratio
          [example_B, example_A] 1 0 mapping_A mapping_B 80 80 80)
   = fst (match_and_merge_two_datasets fuzz_ratio fuzz_token_set_ratio
            [example_A, example_B] 0 1 mapping_A mapping_B 80 80 80)"
    by blast
  then have "fst (match_and_merge_two_datasets fuzz_ratio fuzz_token_set_ratio
          [example_B, example_A] 1 0 mapping_A mapping_B 80 80 80)
   = fst (match_and_merge_two_datasets fuzz_ratio fuzz_token_set_ratio
            [example_A, example_B] 0 1 mapping_A mapping_B 80 80 80)"
    by simp
  with first show ?thesis by (rule conjI)
qed


subsection \<open>C9: the input tables are not modified\<close>

text \<open>
  C9: after the call, successful or not, the store holds at the addresses of the two
  input tables the frames it held before: same column names, same cells. All renaming
  and rewriting went to the two working copies, which are new objects.
\<close>

theorem C9_inputs_unchanged:
  assumes "a1 < length s" and "a2 < length s"
  shows "snd (match_and_merge_two_datasets rat tsr s a1 a2 m1 m2 rt zt wt) ! a1 = s ! a1 \<and>
         snd (match_and_merge_two_datasets rat tsr s a1 a2 m1 m2 rt zt wt) ! a2 = s ! a2"
  using assms by (simp add: match_and_merge_frame)

theorem C9_inputs_unchanged_witness:
  "snd (match_and_merge_two_datasets fuzz_ratio fuzz_token_set_ratio
          [example_A, example_B] 0 1 mapping_A mapping_B 80 80 80) ! 0 = example_A \<and>
   snd (match_and_merge_two_datasets fuzz_ratio fuzz_token_set_ratio
          [example_A, example_B] 0 1 mapping_A mapping_B 80 80 80) ! 1 = example_B"
  using C9_inputs_unchanged [of 0 "[example_A, example_B]" 1 fuzz_ratio fuzz_token_set_ratio
      mapping_A mapping_B 80 80 80]
  by simp

subsection \<open>C10: a non-key column of B with the name of a column of A\<close>

text \<open>
  C10: every merged row is the combined row of a pair (A row, B row), and for every
  column name that A and B share and that is not a mapped key column of B, the merged
  row holds the value of the B row. The A row's value for that column is overwritten.
\<close>

theorem C10_same_named_overwrite:
  assumes res: "fst (match_and_merge_two_datasets rat tsr s a1 a2 m1 m2 rt zt wt)
                  = Inr (merged, unmatched1, unmatched2)"
    and a1: "a1 < length s" and a2: "a2 < length s"
  shows "\<exists>pairs. length pairs = length merged \<and>
      (\<forall>k<length merged.
         fst (pairs ! k) < length (rows (s ! a1)) \<and> snd (pairs ! k) < length (rows (s ! a2)) \<and>
         add_cols (s ! a2) (snd (pairs ! k))
           (filter (\<lambda>col. col \<notin> snd ` set m2) (columns (s ! a2)))
           (to_dict (s ! a1) (fst (pairs ! k))) = Inr (merged ! k) \<and>
         (\<forall>col. col \<in> set (columns (s ! a1)) \<and> col \<in> set (columns (s ! a2)) \<and>
                col \<notin> snd ` set m2 \<longrightarrow>
            (\<exists>v. map_of (merged ! k) col = Some v \<and>
                 getitem (columns (s ! a2)) (rows (s ! a2) ! snd (pairs ! k)) col = Inr v)))"
proof -
  from merged_rows_pairs [OF res a1 a2] obtain pairs where
    len: "length pairs = length merged"
    and rows: "\<forall>k<length merged.
         fst (pairs ! k) < length (rows (s ! a1)) \<and> snd (pairs ! k) < length (rows (s ! a2)) \<and>
         add_cols (s ! a2) (snd (pairs ! k))
           (filter (\<lambda>col. col \<notin> snd ` set m2) (columns (s ! a2)))
           (to_dict (s ! a1) (fst (pairs ! k))) = Inr (merged ! k)"
    by blast
  have "\<exists>v. map_of (merged ! k) col = Some v \<and>
                 getitem (columns (s ! a2)) (rows (s ! a2) ! snd (pairs ! k)) col = Inr v"
    if "k < length merged" "col \<in> set (columns (s ! a2))" "col \<notin> snd ` set m2" for k col
  proof -
    from rows that(1) have "add_cols (s ! a2) (snd (pairs ! k))
           (filter (\<lambda>col. col \<notin> snd ` set m2) (columns (s ! a2)))
           (to_dict (s ! a1) (fst (pairs ! k))) = Inr (merged ! k)"
      by blast
    from add_cols_map_of [OF this, of col] that(2,3) show ?thesis by simp
  qed
  with len rows show ?thesis by blast
qed

theorem C10_same_named_overwrite_witness:
  "\<exists>pairs. length pairs = length [[(''Region'', Text '' Addis Ababa''), (''Zone'', Text ''Zone1''),
            (''Woreda'', Text ''W1''), (''val'', Num 5), (''note'', Text ''ok'')]] \<and>
      (\<forall>k<length [[(''Region'', Text '' Addis Ababa''), (''Zone'', Text ''Zone1''),
            (''Woreda'', Text ''W1''), (''val'', Num 5), (''note'', Text ''ok'')]].
         fst (pairs ! k) < length (rows ([example_A, example_B] ! 0)) \<and>
         snd (pairs ! k) < length (rows ([example_A, example_B] ! 1)) \<and>
         add_cols ([example_A, example_B] ! 1) (snd (pairs ! k))
           (filter (\<lambda>col. col \<notin> snd ` set mapping_B) (columns ([example_A, example_B] ! 1)))
           (to_dict ([example_A, example_B] ! 0) (fst (pairs ! k)))
         = Inr ([[(''Region'', Text '' Addis Ababa''), (''Zone'', Text ''Zone1''),
            (''Woreda'', Text ''W1''), (''val'', Num 5), (''note'', Text ''ok'')]] ! k) \<and>
         (\<forall>col. col \<in> set (columns ([example_A, example_B] ! 0)) \<and>
                col \<in> set (columns ([example_A, example_B] ! 1)) \<and>
                col \<notin> snd ` set mapping_B \<longrightarrow>
            (\<exists>v. map_of ([[(''Region'', Text '' Addis Ababa''), (''Zone'', Text ''Zone1''),
                     (''Woreda'', Text ''W1''), (''val'', Num 5), (''note'', Text ''ok'')]] ! k) col
                   = Some v \<and>
                 getitem (columns ([example_A, example_B] ! 1))
                   (rows ([example_A, example_B] ! 1) ! snd (pairs ! k)) col = Inr v)))"
proof -
  have len: "(0::nat) < length [example_A, example_B]" "(1::nat) < length [example_A, example_B]"
    by simp_all
  show ?thesis
    by (rule C10_same_named_overwrite [OF example_run len])
qed

end
